theory Spec2Isabelle
  imports Main
begin

section \<open>Python values used by the board engine\<close>

text \<open>
  The engine of \<^verbatim>\<open>chess_opening_trainer.py\<close> is the class \<^verbatim>\<open>ChessBoard\<close>.
  Its strings are Python \<^verbatim>\<open>str\<close> values; here a string is a \<^typ>\<open>string\<close> whose
  characters are the code points 0 to 255, so the development covers move texts over
  that alphabet (ASCII and the Latin-1 supplement). Integers are unbounded, as
  Python's are.

  What Python raises is a value: \<open>Inl IndexError\<close>, \<open>Inl ValueError\<close> or
  \<open>Inl OverflowError\<close>. The last constructor, \<open>NoReturn\<close>, is not an exception: it is
  the outcome of a \<^verbatim>\<open>while\<close> loop that never leaves.
\<close>

datatype error = IndexError | ValueError | OverflowError | NoReturn

definition py_ord :: "char \<Rightarrow> int" where
  "py_ord c = int (of_char c)"

definition in_codes :: "char \<Rightarrow> nat \<Rightarrow> nat \<Rightarrow> bool" where
  "in_codes c lo hi = (lo \<le> of_char c \<and> (of_char c :: nat) \<le> hi)"

text \<open>\<^verbatim>\<open>str.isspace\<close>, which decides what \<^verbatim>\<open>str.strip()\<close> removes: tab to
  carriage return, the four separators 28 to 31, space, NEL and the no-break space.\<close>

definition py_isspace :: "char \<Rightarrow> bool" where
  "py_isspace c = (in_codes c 9 13 \<or> in_codes c 28 32 \<or> in_codes c 133 133 \<or> in_codes c 160 160)"

text \<open>\<^verbatim>\<open>str.isupper\<close> of one character: A to Z, and the capital letters of the
  Latin-1 supplement (192 to 222 without the multiplication sign 215).\<close>

definition py_isupper :: "char \<Rightarrow> bool" where
  "py_isupper c = (in_codes c 65 90 \<or> in_codes c 192 214 \<or> in_codes c 216 222)"

text \<open>\<^verbatim>\<open>str.lower\<close> of one character: every capital letter has its small letter
  32 code points later; every other character is unchanged.\<close>

definition py_lower :: "char \<Rightarrow> char" where
  "py_lower c = (if py_isupper c then char_of (of_char c + (32::nat)) else c)"

text \<open>
  \<^verbatim>\<open>str.upper\<close> of one character. Three characters below 256 have an upper case that
  is not one character below 256 (181, 223 and 255); the model leaves them unchanged.
  The source compares the result of \<^verbatim>\<open>upper()\<close> only with the six piece letters, or
  applies it to a character that is already upper case, and in both uses the real
  value and the model's value behave alike.
\<close>

definition py_upper :: "char \<Rightarrow> char" where
  "py_upper c =
     (if in_codes c 97 122 \<or> in_codes c 224 246 \<or> in_codes c 248 254
      then char_of (of_char c - (32::nat)) else c)"

text \<open>\<^verbatim>\<open>str.isalpha\<close> and \<^verbatim>\<open>str.isdigit\<close> of one character. The superscript
  digits 178, 179 and 185 are digits for \<^verbatim>\<open>isdigit\<close>, and \<^verbatim>\<open>int\<close> refuses them.\<close>

definition py_isalpha :: "char \<Rightarrow> bool" where
  "py_isalpha c =
     (in_codes c 65 90 \<or> in_codes c 97 122 \<or> in_codes c 170 170 \<or> in_codes c 181 181 \<or>
      in_codes c 186 186 \<or> in_codes c 192 214 \<or> in_codes c 216 246 \<or> in_codes c 248 255)"

definition py_isdigit :: "char \<Rightarrow> bool" where
  "py_isdigit c = (in_codes c 48 57 \<or> in_codes c 178 179 \<or> in_codes c 185 185)"

text \<open>\<^verbatim>\<open>int(ch)\<close> for a string of one character: the ten decimal digits have a
  value, anything else raises \<^verbatim>\<open>ValueError\<close>.\<close>

definition py_int :: "char \<Rightarrow> error + int" where
  "py_int c = (if in_codes c 48 57 then Inr (py_ord c - 48) else Inl ValueError)"

text \<open>
  \<^verbatim>\<open>str(n)\<close> for an integer: its decimal digits, after a minus sign when negative.
  CPython (from 3.11 on, with its default limit) refuses an integer of more than 4300
  digits with \<^verbatim>\<open>ValueError\<close>; the sign does not count.
\<close>

fun digits :: "nat \<Rightarrow> string" where
  "digits n = (if n < 10 then [char_of (48 + n)] else digits (n div 10) @ [char_of (48 + n mod 10)])"

declare digits.simps [simp del]

definition py_str :: "int \<Rightarrow> error + string" where
  "py_str i =
     (let ds = digits (nat \<bar>i\<bar>)
      in if 4300 < length ds then Inl ValueError
         else Inr (if i < 0 then CHR ''-'' # ds else ds))"

text \<open>
  \<^verbatim>\<open>chr(n)\<close> takes a C \<^verbatim>\<open>int\<close>: an argument outside 32 bits raises
  \<^verbatim>\<open>OverflowError\<close>, one inside them and outside \<^verbatim>\<open>range(0x110000)\<close> raises
  \<^verbatim>\<open>ValueError\<close>. From 256 on the result is a character the model's alphabet does not
  have; that case is kept apart as \<open>None\<close>, and nothing is claimed about it.
\<close>

definition py_chr :: "int \<Rightarrow> (error + char) option" where
  "py_chr n =
     (if n < - 2147483648 \<or> 2147483647 < n then Some (Inl OverflowError)
      else if n < 0 \<or> 1114111 < n then Some (Inl ValueError)
      else if n < 256 then Some (Inr (char_of (nat n)))
      else None)"

text \<open>\<^verbatim>\<open>str.strip()\<close> and \<^verbatim>\<open>str.replace(c, '')\<close>.\<close>

definition py_strip :: "string \<Rightarrow> string" where
  "py_strip s = rev (dropWhile py_isspace (rev (dropWhile py_isspace s)))"

definition remove_char :: "char \<Rightarrow> string \<Rightarrow> string" where
  "remove_char c s = filter (\<lambda>d. d \<noteq> c) s"

text \<open>Indexing a list the way Python does: a negative index counts from the end, and
  an index outside the list raises \<^verbatim>\<open>IndexError\<close>, on a read and on an assignment.\<close>

definition py_index :: "'a list \<Rightarrow> int \<Rightarrow> error + nat" where
  "py_index xs i =
     (let n = int (length xs); j = (if i < 0 then n + i else i)
      in if 0 \<le> j \<and> j < n then Inr (nat j) else Inl IndexError)"

definition py_get :: "'a list \<Rightarrow> int \<Rightarrow> error + 'a" where
  "py_get xs i = (case py_index xs i of Inl e \<Rightarrow> Inl e | Inr j \<Rightarrow> Inr (xs ! j))"

section \<open>Squares\<close>

text \<open>
  \<^verbatim>\<open>square_to_coords\<close>: the file is read first (\<^verbatim>\<open>square[0]\<close>, an
  \<^verbatim>\<open>IndexError\<close> on the empty string), then the rank from the last character.
  Nothing checks that the file letter is one of a to h or that the digit is not 0 or 9.
\<close>

definition square_to_coords :: "string \<Rightarrow> error + (int \<times> int)" where
  "square_to_coords square =
     (case square of
        [] \<Rightarrow> Inl IndexError
      | c # _ \<Rightarrow>
          (let file = py_ord (py_lower c) - py_ord (CHR ''a'')
           in case py_int (last square) of
                Inl e \<Rightarrow> Inl e
              | Inr d \<Rightarrow> Inr (8 - d, file)))"

text \<open>\<^verbatim>\<open>coords_to_square\<close>: \<^verbatim>\<open>chr\<close> is evaluated before \<^verbatim>\<open>str\<close>, so its exception
  is the one that leaves the call when both would raise.\<close>

definition coords_to_square :: "int \<Rightarrow> int \<Rightarrow> (error + string) option" where
  "coords_to_square rank file =
     (case py_chr (file + py_ord (CHR ''a'')) of
        None \<Rightarrow> None
      | Some (Inl e) \<Rightarrow> Some (Inl e)
      | Some (Inr c) \<Rightarrow>
          (case py_str (8 - rank) of
             Inl e \<Rightarrow> Some (Inl e)
           | Inr ds \<Rightarrow> Some (Inr (c # ds))))"

text \<open>The square tokens of the move grammar: a file letter a to h in either case,
  then a rank digit 1 to 8. The 64 squares are the tokens in lower case.\<close>

definition valid_square :: "string \<Rightarrow> bool" where
  "valid_square sq =
     (case sq of
        [c, d] \<Rightarrow> c \<in> set ''abcdefghABCDEFGH'' \<and> d \<in> set ''12345678''
      | _ \<Rightarrow> False)"

definition on_board :: "int \<times> int \<Rightarrow> bool" where
  "on_board p = (0 \<le> fst p \<and> fst p < 8 \<and> 0 \<le> snd p \<and> snd p < 8)"


section \<open>The board and its castling-rights flags\<close>

text \<open>
  A \<^verbatim>\<open>ChessBoard\<close> object: the grid, a list of eight rows of eight one-character
  cells (row 0 is Black's back rank, \<open>CHR ''.''\<close> is an empty cell), and six flags.
  The rows are eight separate lists, created by \<^verbatim>\<open>reset\<close> and only ever written cell
  by cell, so no two rows share storage and the grid is a plain list of lists.
\<close>

record board_state =
  board :: "char list list"
  white_king_moved :: bool
  black_king_moved :: bool
  white_rook_a_moved :: bool
  white_rook_h_moved :: bool
  black_rook_a_moved :: bool
  black_rook_h_moved :: bool

definition reset :: "board_state \<Rightarrow> board_state" where
  "reset s = s\<lparr>
     board := [''rnbqkbnr'', ''pppppppp'', ''........'', ''........'',
               ''........'', ''........'', ''PPPPPPPP'', ''RNBQKBNR''],
     white_king_moved := False,
     black_king_moved := False,
     white_rook_a_moved := False,
     white_rook_h_moved := False,
     black_rook_a_moved := False,
     black_rook_h_moved := False\<rparr>"

text \<open>
  \<^verbatim>\<open>ChessBoard()\<close>: \<^verbatim>\<open>__init__\<close> calls \<^verbatim>\<open>reset\<close> on the new object. The object has
  no attribute before the call; the record \<^verbatim>\<open>reset\<close> is applied to here stands for
  it, and \<^verbatim>\<open>reset\<close> overwrites each of its fields.
\<close>

definition chess_board :: board_state where
  "chess_board =
     reset \<lparr>board = [], white_king_moved = False, black_king_moved = False,
            white_rook_a_moved = False, white_rook_h_moved = False,
            black_rook_a_moved = False, black_rook_h_moved = False\<rparr>"

text \<open>The shape every grid of the program has: eight rows of eight cells.\<close>

definition wf_board :: "char list list \<Rightarrow> bool" where
  "wf_board b = (length b = 8 \<and> list_all (\<lambda>row. length row = 8) b)"

text \<open>\<^verbatim>\<open>self.board[r][f]\<close>, the comparison of a cell with a character, and the
  assignment \<^verbatim>\<open>self.board[r][f] = v\<close>.\<close>

definition cell :: "char list list \<Rightarrow> int \<Rightarrow> int \<Rightarrow> error + char" where
  "cell b r f = (case py_get b r of Inl e \<Rightarrow> Inl e | Inr row \<Rightarrow> py_get row f)"

definition cell_is :: "char list list \<Rightarrow> int \<Rightarrow> int \<Rightarrow> char \<Rightarrow> error + bool" where
  "cell_is b r f c = (case cell b r f of Inl e \<Rightarrow> Inl e | Inr d \<Rightarrow> Inr (d = c))"

definition set_cell :: "char list list \<Rightarrow> int \<Rightarrow> int \<Rightarrow> char \<Rightarrow> error + char list list" where
  "set_cell b r f v =
     (case py_index b r of
        Inl e \<Rightarrow> Inl e
      | Inr i \<Rightarrow>
          (case py_index (b ! i) f of
             Inl e \<Rightarrow> Inl e
           | Inr j \<Rightarrow> Inr (b[i := (b ! i)[j := v]])))"

text \<open>Python's \<^verbatim>\<open>and\<close> evaluates its right operand only when the left one is true;
  a read that raises on the left hides the right.\<close>

definition and_also :: "error + bool \<Rightarrow> error + bool \<Rightarrow> error + bool" where
  "and_also a b = (case a of Inl e \<Rightarrow> Inl e | Inr x \<Rightarrow> if x then b else Inr False)"

text \<open>
  Inside \<^verbatim>\<open>find_piece\<close> a step either returns a square from the function
  (\<open>Inr (Some p)\<close>), raises (\<open>Inl e\<close>) or falls through to the next statement
  (\<open>Inr None\<close>). \<open>return_if\<close> is \<^verbatim>\<open>if cond: return p\<close>; \<open>or_else\<close> puts one step
  after another.
\<close>

definition return_if :: "error + bool \<Rightarrow> 'a \<Rightarrow> error + 'a option" where
  "return_if c p = (case c of Inl e \<Rightarrow> Inl e | Inr x \<Rightarrow> if x then Inr (Some p) else Inr None)"

definition or_else :: "error + 'a option \<Rightarrow> error + 'a option \<Rightarrow> error + 'a option" where
  "or_else a b = (case a of Inl e \<Rightarrow> Inl e | Inr None \<Rightarrow> b | Inr (Some p) \<Rightarrow> Inr (Some p))"

text \<open>\<^verbatim>\<open>hint is None or v == hint\<close>.\<close>

definition hint_ok :: "int option \<Rightarrow> int \<Rightarrow> bool" where
  "hint_ok hint v = (hint = None \<or> hint = Some v)"

section \<open>Locating the origin square: \<^verbatim>\<open>find_piece\<close>\<close>

text \<open>The loop over the candidate files of a pawn capture; \<open>r\<close> is the rank one step
  behind the destination and \<open>pawn\<close> the mover's pawn letter.\<close>

fun pawn_capture_loop :: "char list list \<Rightarrow> char \<Rightarrow> int \<Rightarrow> int list \<Rightarrow> error + (int \<times> int) option" where
  "pawn_capture_loop b pawn r [] = Inr None"
| "pawn_capture_loop b pawn r (f # fs) =
     (if 0 \<le> r \<and> r < 8 \<and> 0 \<le> f \<and> f < 8
      then or_else (return_if (cell_is b r f pawn) (r, f)) (pawn_capture_loop b pawn r fs)
      else pawn_capture_loop b pawn r fs)"

definition candidate_files :: "int option \<Rightarrow> int \<Rightarrow> int list" where
  "candidate_files from_file_hint to_file =
     (case from_file_hint of Some h \<Rightarrow> [h] | None \<Rightarrow> [to_file - 1, to_file + 1])"

definition white_pawn :: "char list list \<Rightarrow> int \<Rightarrow> int \<Rightarrow> int option \<Rightarrow> bool \<Rightarrow> error + (int \<times> int) option" where
  "white_pawn b to_rank to_file from_file_hint is_capture =
     or_else
       (if is_capture
        then pawn_capture_loop b (CHR ''P'') (to_rank + 1) (candidate_files from_file_hint to_file)
        else Inr None)
    (or_else
       (return_if
          (and_also (Inr (to_rank + 1 < 8))
          (and_also (cell_is b (to_rank + 1) to_file (CHR ''P''))
                    (cell_is b to_rank to_file (CHR ''.''))))
          (to_rank + 1, to_file))
       (return_if
          (and_also (Inr (to_rank = 4))
          (and_also (cell_is b 6 to_file (CHR ''P''))
          (and_also (cell_is b 5 to_file (CHR ''.''))
                    (cell_is b 4 to_file (CHR ''.'')))))
          (6, to_file)))"

definition black_pawn :: "char list list \<Rightarrow> int \<Rightarrow> int \<Rightarrow> int option \<Rightarrow> bool \<Rightarrow> error + (int \<times> int) option" where
  "black_pawn b to_rank to_file from_file_hint is_capture =
     or_else
       (if is_capture
        then pawn_capture_loop b (CHR ''p'') (to_rank - 1) (candidate_files from_file_hint to_file)
        else Inr None)
    (or_else
       (return_if
          (and_also (Inr (to_rank - 1 \<ge> 0))
          (and_also (cell_is b (to_rank - 1) to_file (CHR ''p''))
                    (cell_is b to_rank to_file (CHR ''.''))))
          (to_rank - 1, to_file))
       (return_if
          (and_also (Inr (to_rank = 3))
          (and_also (cell_is b 1 to_file (CHR ''p''))
          (and_also (cell_is b 2 to_file (CHR ''.''))
                    (cell_is b 3 to_file (CHR ''.'')))))
          (1, to_file)))"

text \<open>The loop over the eight knight offsets.\<close>

definition knight_moves :: "(int \<times> int) list" where
  "knight_moves = [(-2, -1), (-2, 1), (-1, -2), (-1, 2), (1, -2), (1, 2), (2, -1), (2, 1)]"

fun knight_loop ::
  "char list list \<Rightarrow> char \<Rightarrow> int option \<Rightarrow> int option \<Rightarrow> int \<Rightarrow> int \<Rightarrow> (int \<times> int) list
   \<Rightarrow> error + (int \<times> int) option" where
  "knight_loop b piece from_file_hint from_rank_hint to_rank to_file [] = Inr None"
| "knight_loop b piece from_file_hint from_rank_hint to_rank to_file ((dr, df) # ds) =
     (let r = to_rank + dr; f = to_file + df
      in if 0 \<le> r \<and> r < 8 \<and> 0 \<le> f \<and> f < 8
         then or_else
                (return_if
                   (and_also (cell_is b r f piece)
                             (Inr (hint_ok from_rank_hint r \<and> hint_ok from_file_hint f)))
                   (r, f))
                (knight_loop b piece from_file_hint from_rank_hint to_rank to_file ds)
         else knight_loop b piece from_file_hint from_rank_hint to_rank to_file ds)"

text \<open>
  The \<^verbatim>\<open>while\<close> loop of a sliding piece along one direction, entered at \<open>(r, f)\<close>.
  With the direction \<open>(0, 0)\<close> on an empty cell it would never leave, so the loop is
  a partial function: \<open>None\<close> is "never returns". A cell is read twice, as in the
  source: once against the piece, once against the empty cell.
\<close>

partial_function (option) ray ::
  "char list list \<Rightarrow> char \<Rightarrow> int option \<Rightarrow> int option \<Rightarrow> int \<Rightarrow> int \<Rightarrow> int \<Rightarrow> int
   \<Rightarrow> (error + (int \<times> int) option) option" where
  "ray b piece from_file_hint from_rank_hint dr df r f =
     (if 0 \<le> r \<and> r < 8 \<and> 0 \<le> f \<and> f < 8
      then (case return_if
                   (and_also (cell_is b r f piece)
                             (Inr (hint_ok from_rank_hint r \<and> hint_ok from_file_hint f)))
                   (r, f) of
              Inl e \<Rightarrow> Some (Inl e)
            | Inr (Some p) \<Rightarrow> Some (Inr (Some p))
            | Inr None \<Rightarrow>
                (case cell_is b r f (CHR ''.'') of
                   Inl e \<Rightarrow> Some (Inl e)
                 | Inr vacant \<Rightarrow>
                     if \<not> vacant then Some (Inr None)
                     else ray b piece from_file_hint from_rank_hint dr df (r + dr) (f + df)))
      else Some (Inr None))"

declare ray.simps [code]

text \<open>The \<^verbatim>\<open>for\<close> loop over the directions of a bishop, rook or queen.\<close>

fun slide_loop ::
  "char list list \<Rightarrow> char \<Rightarrow> int option \<Rightarrow> int option \<Rightarrow> int \<Rightarrow> int \<Rightarrow> (int \<times> int) list
   \<Rightarrow> error + (int \<times> int) option" where
  "slide_loop b piece from_file_hint from_rank_hint to_rank to_file [] = Inr None"
| "slide_loop b piece from_file_hint from_rank_hint to_rank to_file ((dr, df) # ds) =
     (case ray b piece from_file_hint from_rank_hint dr df (to_rank + dr) (to_file + df) of
        None \<Rightarrow> Inl NoReturn
      | Some res \<Rightarrow>
          or_else res (slide_loop b piece from_file_hint from_rank_hint to_rank to_file ds))"

definition bishop_dirs :: "(int \<times> int) list" where
  "bishop_dirs = [(-1, -1), (-1, 1), (1, -1), (1, 1)]"

definition rook_dirs :: "(int \<times> int) list" where
  "rook_dirs = [(-1, 0), (1, 0), (0, -1), (0, 1)]"

definition queen_dirs :: "(int \<times> int) list" where
  "queen_dirs = [(-1, -1), (-1, 0), (-1, 1), (0, -1), (0, 1), (1, -1), (1, 0), (1, 1)]"

text \<open>The two nested loops of the king over \<^verbatim>\<open>[-1, 0, 1]\<close>, in their order, with
  the \<^verbatim>\<open>continue\<close> at \<open>(0, 0)\<close>; the king's search takes no hint.\<close>

definition king_offsets :: "(int \<times> int) list" where
  "king_offsets =
     filter (\<lambda>(dr, df). \<not> (dr = 0 \<and> df = 0))
       (concat (map (\<lambda>dr. map (\<lambda>df. (dr, df)) [-1, 0, 1]) [-1, 0, 1]))"

fun king_loop ::
  "char list list \<Rightarrow> char \<Rightarrow> int \<Rightarrow> int \<Rightarrow> (int \<times> int) list \<Rightarrow> error + (int \<times> int) option" where
  "king_loop b piece to_rank to_file [] = Inr None"
| "king_loop b piece to_rank to_file ((dr, df) # ds) =
     (let r = to_rank + dr; f = to_file + df
      in if 0 \<le> r \<and> r < 8 \<and> 0 \<le> f \<and> f < 8
         then or_else (return_if (cell_is b r f piece) (r, f))
                      (king_loop b piece to_rank to_file ds)
         else king_loop b piece to_rank to_file ds)"

text \<open>
  \<^verbatim>\<open>find_piece\<close> is a method: it takes the object and leaves it behind, so the model
  returns the state next to the result. The result is \<open>Inr (Some (r, f))\<close> for a
  returned square and \<open>Inr None\<close> for Python's \<^verbatim>\<open>None\<close>. The piece is a string of
  one character, as \<^verbatim>\<open>parse_move\<close> passes it. The pawn rules look for the letter
  \<open>P\<close> or \<open>p\<close> of the side to move, the other rules for \<open>piece\<close> itself.
\<close>

definition find_piece ::
  "char \<Rightarrow> int \<Rightarrow> int \<Rightarrow> int option \<Rightarrow> int option \<Rightarrow> bool \<Rightarrow> bool \<Rightarrow> board_state
   \<Rightarrow> (error + (int \<times> int) option) \<times> board_state" where
  "find_piece piece to_rank to_file from_file_hint from_rank_hint is_white_turn is_capture s =
     (let piece_type = py_upper piece
      in (if piece_type = CHR ''P'' then
            (if is_white_turn
             then white_pawn (board s) to_rank to_file from_file_hint is_capture
             else black_pawn (board s) to_rank to_file from_file_hint is_capture)
          else if piece_type = CHR ''N'' then
            knight_loop (board s) piece from_file_hint from_rank_hint to_rank to_file knight_moves
          else if piece_type = CHR ''B'' then
            slide_loop (board s) piece from_file_hint from_rank_hint to_rank to_file bishop_dirs
          else if piece_type = CHR ''R'' then
            slide_loop (board s) piece from_file_hint from_rank_hint to_rank to_file rook_dirs
          else if piece_type = CHR ''Q'' then
            slide_loop (board s) piece from_file_hint from_rank_hint to_rank to_file queen_dirs
          else if piece_type = CHR ''K'' then
            king_loop (board s) piece to_rank to_file king_offsets
          else Inr None,
          s))"

section \<open>Reading a move text: \<^verbatim>\<open>parse_move\<close>\<close>

definition kingside_tokens :: "string list" where
  "kingside_tokens = [''O-O'', ''0-0'', ''o-o'', ''O-o'', ''o-O'']"

definition queenside_tokens :: "string list" where
  "queenside_tokens = [''O-O-O'', ''0-0-0'', ''o-o-o'']"

text \<open>The two loops over the disambiguation text. The last matching character wins.
  The rank loop calls \<^verbatim>\<open>int(ch)\<close> outside any \<^verbatim>\<open>try\<close>, so a superscript digit
  raises \<^verbatim>\<open>ValueError\<close> out of \<^verbatim>\<open>parse_move\<close>.\<close>

fun file_hint_loop :: "string \<Rightarrow> int option \<Rightarrow> int option" where
  "file_hint_loop [] hint = hint"
| "file_hint_loop (ch # cs) hint =
     (if py_isalpha ch \<and> py_ord (CHR ''a'') \<le> py_ord (py_lower ch)
           \<and> py_ord (py_lower ch) \<le> py_ord (CHR ''h'')
      then file_hint_loop cs (Some (py_ord (py_lower ch) - py_ord (CHR ''a'')))
      else file_hint_loop cs hint)"

fun rank_hint_loop :: "string \<Rightarrow> int option \<Rightarrow> error + int option" where
  "rank_hint_loop [] hint = Inr hint"
| "rank_hint_loop (ch # cs) hint =
     (if py_isdigit ch
      then (case py_int ch of
              Inl e \<Rightarrow> Inl e
            | Inr d \<Rightarrow> rank_hint_loop cs (Some (8 - d)))
      else rank_hint_loop cs hint)"

text \<open>
  \<^verbatim>\<open>parse_move\<close>. The result is \<open>Inr (Some (from_pos, to_pos, piece))\<close>, or
  \<open>Inr None\<close> for Python's \<^verbatim>\<open>None\<close>, or what the call raises. \<^verbatim>\<open>move[0]\<close> is
  read before the length check, so it raises \<^verbatim>\<open>IndexError\<close> when nothing is left
  of the text. The \<^verbatim>\<open>try\<close> around \<^verbatim>\<open>square_to_coords\<close> turns every exception of
  that call into \<^verbatim>\<open>None\<close>. A square that \<^verbatim>\<open>find_piece\<close> returns is a pair, which is
  true for \<^verbatim>\<open>if from_pos\<close>, so only \<^verbatim>\<open>None\<close> takes the last \<^verbatim>\<open>return None\<close>.
\<close>

definition parse_move ::
  "string \<Rightarrow> bool \<Rightarrow> board_state
   \<Rightarrow> (error + ((int \<times> int) \<times> (int \<times> int) \<times> char) option) \<times> board_state" where
  "parse_move original_move is_white_turn s =
     (let move = remove_char (CHR ''?'') (remove_char (CHR ''!'') (remove_char (CHR ''#'')
                   (remove_char (CHR ''+'') (py_strip original_move))))
      in if move \<in> set kingside_tokens then
           (let rank = (if is_white_turn then 7 else 0)
            in (Inr (Some ((rank, 4), (rank, 6), if is_white_turn then CHR ''K'' else CHR ''k'')), s))
         else if move \<in> set queenside_tokens then
           (let rank = (if is_white_turn then 7 else 0)
            in (Inr (Some ((rank, 4), (rank, 2), if is_white_turn then CHR ''K'' else CHR ''k'')), s))
         else
           (case move of
              [] \<Rightarrow> (Inl IndexError, s)
            | c0 # rest \<Rightarrow>
                (let piece_char = (if py_isupper c0 then c0 else CHR ''P'');
                     move_part0 = (if py_isupper c0 then rest else move);
                     piece = (if is_white_turn then py_upper piece_char else py_lower piece_char);
                     is_capture = (CHR ''x'' \<in> set move_part0);
                     move_part = remove_char (CHR ''x'') move_part0
                 in if length move_part < 2 then (Inr None, s)
                    else
                      (case square_to_coords (drop (length move_part - 2) move_part) of
                         Inl e \<Rightarrow> (Inr None, s)
                       | Inr (to_rank, to_file) \<Rightarrow>
                           (let disambig = take (length move_part - 2) move_part;
                                from_file_hint = file_hint_loop disambig None
                            in case rank_hint_loop disambig None of
                                 Inl e \<Rightarrow> (Inl e, s)
                               | Inr from_rank_hint \<Rightarrow>
                                   (case find_piece piece to_rank to_file from_file_hint
                                           from_rank_hint is_white_turn is_capture s of
                                      (Inl e, s1) \<Rightarrow> (Inl e, s1)
                                    | (Inr None, s1) \<Rightarrow> (Inr None, s1)
                                    | (Inr (Some from_pos), s1) \<Rightarrow>
                                        (Inr (Some (from_pos, (to_rank, to_file), piece)), s1)))))))"

section \<open>Applying a move: \<^verbatim>\<open>make_move\<close>\<close>

text \<open>
  Cell assignments in their order. An assignment that raises stops the method, and
  the assignments made before it stay: the state comes back with the error.
\<close>

fun assign_cells :: "(int \<times> int \<times> char) list \<Rightarrow> board_state \<Rightarrow> error option \<times> board_state" where
  "assign_cells [] s = (None, s)"
| "assign_cells ((r, f, v) # rest) s =
     (case set_cell (board s) r f v of
        Inl e \<Rightarrow> (Some e, s)
      | Inr b \<Rightarrow> assign_cells rest (s\<lparr>board := b\<rparr>))"

definition set_king_moved :: "bool \<Rightarrow> board_state \<Rightarrow> board_state" where
  "set_king_moved is_white_turn s =
     (if is_white_turn then s\<lparr>white_king_moved := True\<rparr> else s\<lparr>black_king_moved := True\<rparr>)"

text \<open>The bookkeeping after a normal move, on the piece that was moved and the
  square it left.\<close>

definition track_moved :: "char \<Rightarrow> int \<Rightarrow> int \<Rightarrow> board_state \<Rightarrow> board_state" where
  "track_moved moving_piece from_rank from_file s =
     (if moving_piece = CHR ''K'' then s\<lparr>white_king_moved := True\<rparr>
      else if moving_piece = CHR ''k'' then s\<lparr>black_king_moved := True\<rparr>
      else if moving_piece = CHR ''R'' then
        (if from_rank = 7 \<and> from_file = 0 then s\<lparr>white_rook_a_moved := True\<rparr>
         else if from_rank = 7 \<and> from_file = 7 then s\<lparr>white_rook_h_moved := True\<rparr>
         else s)
      else if moving_piece = CHR ''r'' then
        (if from_rank = 0 \<and> from_file = 0 then s\<lparr>black_rook_a_moved := True\<rparr>
         else if from_rank = 0 \<and> from_file = 7 then s\<lparr>black_rook_h_moved := True\<rparr>
         else s)
      else s)"

text \<open>
  \<^verbatim>\<open>make_move\<close> removes \<^verbatim>\<open>+\<close> and \<^verbatim>\<open>#\<close> only, hands the text to
  \<^verbatim>\<open>parse_move\<close>, and then tests its own copy of the text against the castling
  tokens. The result is the returned boolean, or the exception, next to the state the
  call leaves.
\<close>

definition make_move :: "string \<Rightarrow> bool \<Rightarrow> board_state \<Rightarrow> (error + bool) \<times> board_state" where
  "make_move move0 is_white_turn s =
     (let move = remove_char (CHR ''#'') (remove_char (CHR ''+'') move0)
      in case parse_move move is_white_turn s of
           (Inl e, s1) \<Rightarrow> (Inl e, s1)
         | (Inr None, s1) \<Rightarrow> (Inr False, s1)
         | (Inr (Some ((from_rank, from_file), (to_rank, to_file), piece)), s1) \<Rightarrow>
             if move \<in> set kingside_tokens then
               (let rank = (if is_white_turn then 7 else 0)
                in case assign_cells
                          [(rank, 4, CHR ''.''),
                           (rank, 6, if is_white_turn then CHR ''K'' else CHR ''k''),
                           (rank, 7, CHR ''.''),
                           (rank, 5, if is_white_turn then CHR ''R'' else CHR ''r'')] s1 of
                     (Some e, s2) \<Rightarrow> (Inl e, s2)
                   | (None, s2) \<Rightarrow> (Inr True, set_king_moved is_white_turn s2))
             else if move \<in> set queenside_tokens then
               (let rank = (if is_white_turn then 7 else 0)
                in case assign_cells
                          [(rank, 4, CHR ''.''),
                           (rank, 2, if is_white_turn then CHR ''K'' else CHR ''k''),
                           (rank, 0, CHR ''.''),
                           (rank, 3, if is_white_turn then CHR ''R'' else CHR ''r'')] s1 of
                     (Some e, s2) \<Rightarrow> (Inl e, s2)
                   | (None, s2) \<Rightarrow> (Inr True, set_king_moved is_white_turn s2))
             else
               (case cell (board s1) from_rank from_file of
                  Inl e \<Rightarrow> (Inl e, s1)
                | Inr moving_piece \<Rightarrow>
                    (case assign_cells
                            [(from_rank, from_file, CHR ''.''),
                             (to_rank, to_file, moving_piece)] s1 of
                       (Some e, s2) \<Rightarrow> (Inl e, s2)
                     | (None, s2) \<Rightarrow> (Inr True, track_moved moving_piece from_rank from_file s2))))"

section \<open>Notions used in the statements\<close>

text \<open>A flag that is set stays set from \<open>s\<close> to \<open>s'\<close>.\<close>

definition flags_kept :: "board_state \<Rightarrow> board_state \<Rightarrow> bool" where
  "flags_kept s s' =
     ((white_king_moved s \<longrightarrow> white_king_moved s') \<and>
      (black_king_moved s \<longrightarrow> black_king_moved s') \<and>
      (white_rook_a_moved s \<longrightarrow> white_rook_a_moved s') \<and>
      (white_rook_h_moved s \<longrightarrow> white_rook_h_moved s') \<and>
      (black_rook_a_moved s \<longrightarrow> black_rook_a_moved s') \<and>
      (black_rook_h_moved s \<longrightarrow> black_rook_h_moved s'))"

text \<open>
  \<open>clear_ray b piece fh rh dr df r f p\<close>: walking from \<open>(r, f)\<close> in steps of
  \<open>(dr, df)\<close>, the square \<open>p\<close> is reached after \<open>k\<close> steps, it is on the board, it
  holds \<open>piece\<close> and satisfies the hints, and the \<open>k\<close> squares walked over before it
  are empty.
\<close>

definition clear_ray ::
  "char list list \<Rightarrow> char \<Rightarrow> int option \<Rightarrow> int option \<Rightarrow> int \<Rightarrow> int \<Rightarrow> int \<Rightarrow> int \<Rightarrow> int \<times> int \<Rightarrow> bool" where
  "clear_ray b piece fh rh dr df r f p =
     (\<exists>k::nat. fst p = r + int k * dr \<and> snd p = f + int k * df \<and> on_board p
         \<and> cell b (fst p) (snd p) = Inr piece \<and> hint_ok rh (fst p) \<and> hint_ok fh (snd p)
         \<and> (\<forall>j<k. cell b (r + int j * dr) (f + int j * df) = Inr (CHR ''.'')))"

text \<open>The directions a sliding piece may move in: the four diagonals for a bishop,
  the four orthogonals for a rook, all eight for a queen.\<close>

definition legal_direction :: "char \<Rightarrow> int \<times> int \<Rightarrow> bool" where
  "legal_direction piece_type d =
     (if piece_type = CHR ''B'' then \<bar>fst d\<bar> = 1 \<and> \<bar>snd d\<bar> = 1
      else if piece_type = CHR ''R'' then \<bar>fst d\<bar> + \<bar>snd d\<bar> = 1
      else if piece_type = CHR ''Q'' then (\<bar>fst d\<bar> = 1 \<and> \<bar>snd d\<bar> = 1) \<or> \<bar>fst d\<bar> + \<bar>snd d\<bar> = 1
      else False)"

section \<open>Squares and coordinates\<close>

lemma digits_small: "n < 10 \<Longrightarrow> digits n = [char_of (48 + n)]"
  by (subst digits.simps) simp

lemma file_letter:
  assumes "c \<in> set ''abcdefghABCDEFGH''"
  shows "0 \<le> py_ord (py_lower c) - py_ord (CHR ''a'') \<and> py_ord (py_lower c) - py_ord (CHR ''a'') < 8
     \<and> py_chr (py_ord (py_lower c) - py_ord (CHR ''a'') + py_ord (CHR ''a'')) = Some (Inr (py_lower c))"
  using assms by (auto simp: py_ord_def py_lower_def py_isupper_def in_codes_def py_chr_def)

lemma rank_digit:
  assumes "d \<in> set ''12345678''"
  shows "\<exists>k. py_int d = Inr k \<and> 1 \<le> k \<and> k \<le> 8 \<and> py_str k = Inr [d] \<and> py_lower d = d"
  using assms by (auto simp: py_int_def py_ord_def py_lower_def py_isupper_def in_codes_def py_str_def digits_small char_of_eq_iff)

lemma file_char:
  assumes "0 \<le> file" "file < 8"
  defines "c \<equiv> char_of (nat (file + 97))"
  shows "py_chr (file + py_ord (CHR ''a'')) = Some (Inr c)" "c \<in> set ''abcdefgh''"
    "py_ord (py_lower c) - py_ord (CHR ''a'') = file"
proof -
  from assms(1,2) have f: "file \<in> {0,1,2,3,4,5,6,7}" by auto
  show "py_chr (file + py_ord (CHR ''a'')) = Some (Inr c)"
    using assms(1,2) by (simp add: py_chr_def py_ord_def c_def)
  from f show "c \<in> set ''abcdefgh''"
    unfolding c_def by (elim insertE emptyE) (simp_all add: char_of_eq_iff)
  from f show "py_ord (py_lower c) - py_ord (CHR ''a'') = file"
    unfolding c_def by (elim insertE emptyE) (simp_all add: py_ord_def py_lower_def py_isupper_def in_codes_def)
qed

lemma rank_char:
  assumes "0 \<le> rank" "rank < 8"
  defines "d \<equiv> char_of (nat (56 - rank))"
  shows "py_str (8 - rank) = Inr [d]" "d \<in> set ''12345678''" "py_int d = Inr (8 - rank)"
proof -
  from assms(1,2) have r: "rank \<in> {0,1,2,3,4,5,6,7}" by auto
  from r show "py_str (8 - rank) = Inr [d]"
    unfolding d_def by (elim insertE emptyE) (simp_all add: py_str_def digits_small)
  from r show "d \<in> set ''12345678''"
    unfolding d_def by (elim insertE emptyE) (simp_all add: char_of_eq_iff)
  from r show "py_int d = Inr (8 - rank)"
    unfolding d_def by (elim insertE emptyE) (simp_all add: py_int_def py_ord_def in_codes_def)
qed

lemma coords_to_square_on_board:
  assumes "0 \<le> rank" "rank < 8" "0 \<le> file" "file < 8"
  shows "\<exists>c d. coords_to_square rank file = Some (Inr [c, d]) \<and> c \<in> set ''abcdefgh'' \<and> d \<in> set ''12345678''
     \<and> square_to_coords [c, d] = Inr (rank, file)"
  using file_char[OF assms(3,4)] rank_char[OF assms(1,2)]
  by (simp add: coords_to_square_def square_to_coords_def)


lemma valid_square_coords:
  assumes "valid_square sq"
  shows "\<exists>rank file. square_to_coords sq = Inr (rank, file) \<and> on_board (rank, file) \<and>
           coords_to_square rank file = Some (Inr (map py_lower sq))"
proof -
  from assms obtain c d where sq: "sq = [c, d]"
    and c: "c \<in> set ''abcdefghABCDEFGH''" and d: "d \<in> set ''12345678''"
    by (auto simp: valid_square_def split: list.splits)
  from rank_digit[OF d] obtain k where k: "py_int d = Inr k" "1 \<le> k" "k \<le> 8"
    "py_str k = Inr [d]" "py_lower d = d" by blast
  from file_letter[OF c] k show ?thesis
    by (simp add: sq square_to_coords_def coords_to_square_def on_board_def)
qed

text \<open>
  C1. On the 64 squares \<^verbatim>\<open>square_to_coords\<close> undoes \<^verbatim>\<open>coords_to_square\<close>: for rank
  and file in 0..7 the square string is produced and maps back to (rank, file). For
  every square token (file letter a to h in either case, rank digit 1 to 8) the
  other composition gives the token in lower case. Over the 64 lower-case tokens
  \<^verbatim>\<open>square_to_coords\<close> is a bijection onto the 64 coordinate pairs of the board.
\<close>

theorem square_coords_inverse:
  "(\<forall>rank file. 0 \<le> rank \<and> rank \<le> 7 \<and> 0 \<le> file \<and> file \<le> 7 \<longrightarrow>
      (\<exists>sq. coords_to_square rank file = Some (Inr sq) \<and> square_to_coords sq = Inr (rank, file)))
   \<and> (\<forall>sq. valid_square sq \<longrightarrow>
      (\<exists>rank file. square_to_coords sq = Inr (rank, file) \<and>
         coords_to_square rank file = Some (Inr (map py_lower sq))))
   \<and> bij_betw square_to_coords {sq. valid_square sq \<and> map py_lower sq = sq} (Inr ` {p. on_board p})
   \<and> card {sq. valid_square sq \<and> map py_lower sq = sq} = 64"
proof (intro conjI allI impI)
  fix rk fl :: int
  assume "0 \<le> rk \<and> rk \<le> 7 \<and> 0 \<le> fl \<and> fl \<le> 7"
  then have "0 \<le> rk" "rk < 8" "0 \<le> fl" "fl < 8" by auto
  from coords_to_square_on_board[OF this]
  show "\<exists>sq. coords_to_square rk fl = Some (Inr sq) \<and> square_to_coords sq = Inr (rk, fl)"
    by blast
next
  fix sq assume "valid_square sq"
  from valid_square_coords[OF this]
  show "\<exists>rank file. square_to_coords sq = Inr (rank, file) \<and>
         coords_to_square rank file = Some (Inr (map py_lower sq))" by blast
next
  let ?S = "{sq. valid_square sq \<and> map py_lower sq = sq}"
  have inj: "inj_on square_to_coords ?S"
  proof (rule inj_onI)
    fix x y assume x: "x \<in> ?S" and y: "y \<in> ?S" and eq: "square_to_coords x = square_to_coords y"
    from x valid_square_coords[of x] obtain r f where
      1: "square_to_coords x = Inr (r, f)" "coords_to_square r f = Some (Inr x)" by auto
    from y valid_square_coords[of y] obtain r' f' where
      2: "square_to_coords y = Inr (r', f')" "coords_to_square r' f' = Some (Inr y)" by auto
    from 1 2 eq show "x = y" by simp
  qed
  have img: "square_to_coords ` ?S = Inr ` {p. on_board p}"
  proof (intro set_eqI iffI)
    fix v assume "v \<in> square_to_coords ` ?S"
    then obtain sq where "valid_square sq" "v = square_to_coords sq" by auto
    with valid_square_coords[of sq] show "v \<in> Inr ` {p. on_board p}" by auto
  next
    fix v :: "error + int \<times> int" assume "v \<in> Inr ` {p. on_board p}"
    then obtain r f where v: "v = Inr (r, f)" and "on_board (r, f)" by auto
    then have "0 \<le> r" "r < 8" "0 \<le> f" "f < 8" by (auto simp: on_board_def)
    from coords_to_square_on_board[OF this] obtain c d where
      cd: "coords_to_square r f = Some (Inr [c, d])" "c \<in> set ''abcdefgh''" "d \<in> set ''12345678''"
        "square_to_coords [c, d] = Inr (r, f)" by blast
    from cd(2) have c: "c \<in> set ''abcdefghABCDEFGH''" "py_lower c = c"
      by (auto simp: py_lower_def py_isupper_def in_codes_def)
    from rank_digit[OF cd(3)] have d: "py_lower d = d" by blast
    from c d cd(3) have "valid_square [c, d]" "map py_lower [c, d] = [c, d]"
      by (simp_all add: valid_square_def)
    with cd(4) v show "v \<in> square_to_coords ` ?S" by force
  qed
  from inj img show bij: "bij_betw square_to_coords ?S (Inr ` {p. on_board p})"
    by (simp add: bij_betw_def)
  have "{p. on_board p} = {0..7} \<times> {0..7}"
    by (auto simp: on_board_def)
  then have "card {p. on_board p} = 64" by simp
  then have "card (Inr ` {p. on_board p} :: (error + int \<times> int) set) = 64"
    by (simp add: card_image)
  with bij_betw_same_card[OF bij] show "card ?S = 64" by simp
qed

theorem square_coords_inverse_witness:
  "coords_to_square 4 4 = Some (Inr ''e4'') \<and> square_to_coords ''e4'' = Inr (4, 4)
   \<and> valid_square ''E4'' \<and> square_to_coords ''E4'' = Inr (4, 4) \<and> map py_lower ''E4'' = ''e4''"
proof -
  have a: "coords_to_square 4 4 = Some (Inr ''e4'')" by code_simp
  have v: "valid_square ''E4''" by code_simp
  have l: "map py_lower ''E4'' = ''e4''" by code_simp
  from square_coords_inverse have
    "\<exists>sq. coords_to_square 4 4 = Some (Inr sq) \<and> square_to_coords sq = Inr (4, 4)" by simp
  with a have b: "square_to_coords ''e4'' = Inr (4, 4)" by simp
  from square_coords_inverse v have
    "\<exists>rank file. square_to_coords ''E4'' = Inr (rank, file) \<and>
       coords_to_square rank file = Some (Inr (map py_lower ''E4''))" by blast
  then obtain r f where rf: "square_to_coords ''E4'' = Inr (r, f)"
    "coords_to_square r f = Some (Inr ''e4'')" using l by auto
  have "square_to_coords ''E4'' = Inr (4, 4)" by code_simp
  with a b v l show ?thesis by simp
qed


section \<open>What the methods leave unchanged\<close>

lemma find_piece_pair:
  "find_piece p tr tf fh rh w cap s = (fst (find_piece p tr tf fh rh w cap s), s)"
  by (simp add: find_piece_def Let_def)

lemma parse_move_snd: "snd (parse_move m w s) = s"
  unfolding parse_move_def Let_def
  by (subst find_piece_pair) (simp split: list.split sum.split option.split prod.split)

lemma parse_move_state: "parse_move m w s = (res, s1) \<Longrightarrow> s1 = s"
  using parse_move_snd[of m w s] by simp

lemma flags_kept_refl: "flags_kept s s"
  by (simp add: flags_kept_def)

lemma flags_kept_trans: "flags_kept s s1 \<Longrightarrow> flags_kept s1 s2 \<Longrightarrow> flags_kept s s2"
  by (simp add: flags_kept_def)

lemma assign_cells_flags: "assign_cells as s = (r, s') \<Longrightarrow> flags_kept s s'"
proof (induction as arbitrary: s)
  case Nil
  then show ?case by (simp add: flags_kept_def)
next
  case (Cons a as)
  obtain rk fl v where a: "a = (rk, fl, v)" by (cases a)
  show ?case
  proof (cases "set_cell (board s) rk fl v")
    case (Inl e)
    with Cons.prems a show ?thesis by (simp add: flags_kept_def)
  next
    case (Inr b)
    with Cons.prems a have "assign_cells as (s\<lparr>board := b\<rparr>) = (r, s')" by simp
    from Cons.IH[OF this] show ?thesis by (simp add: flags_kept_def)
  qed
qed

lemma set_king_moved_flags: "flags_kept s (set_king_moved w s)"
  by (simp add: flags_kept_def set_king_moved_def)

lemma track_moved_flags: "flags_kept s (track_moved p r f s)"
  by (simp add: flags_kept_def track_moved_def)

lemma castle_flags:
  "flags_kept s (snd (case assign_cells as s of
       (Some e, s2) \<Rightarrow> (Inl e, s2)
     | (None, s2) \<Rightarrow> (Inr True, set_king_moved w s2)))"
proof -
  obtain r s2 where a: "assign_cells as s = (r, s2)" by (cases "assign_cells as s")
  from assign_cells_flags[OF a] set_king_moved_flags[of s2 w] show ?thesis
    by (cases r) (auto simp: a intro: flags_kept_trans)
qed

lemma normal_flags:
  "flags_kept s (snd (case assign_cells as s of
       (Some e, s2) \<Rightarrow> (Inl e, s2)
     | (None, s2) \<Rightarrow> (Inr True, track_moved p r f s2)))"
proof -
  obtain x s2 where a: "assign_cells as s = (x, s2)" by (cases "assign_cells as s")
  from assign_cells_flags[OF a] track_moved_flags[of s2 p r f] show ?thesis
    by (cases x) (auto simp: a intro: flags_kept_trans)
qed

lemma make_move_flags: "flags_kept s (snd (make_move m w s))"
proof -
  let ?mv = "remove_char (CHR ''#'') (remove_char (CHR ''+'') m)"
  obtain res s1 where p: "parse_move ?mv w s = (res, s1)"
    by (cases "parse_move ?mv w s")
  from parse_move_state[OF p] have s1: "s1 = s" .
  show ?thesis
  proof (cases res)
    case (Inl e)
    with p s1 show ?thesis by (simp add: make_move_def flags_kept_refl)
  next
    case (Inr po)
    show ?thesis
    proof (cases po)
      case None
      with Inr p s1 show ?thesis by (simp add: make_move_def flags_kept_refl)
    next
      case (Some t)
      obtain fr ff tr tf pc where t: "t = ((fr, ff), (tr, tf), pc)"
        by (cases t) auto
      have mm: "make_move m w s =
        (if ?mv \<in> set kingside_tokens then
           (case assign_cells
                  [(if w then 7 else 0, 4, CHR ''.''),
                   (if w then 7 else 0, 6, if w then CHR ''K'' else CHR ''k''),
                   (if w then 7 else 0, 7, CHR ''.''),
                   (if w then 7 else 0, 5, if w then CHR ''R'' else CHR ''r'')] s of
              (Some e, s2) \<Rightarrow> (Inl e, s2)
            | (None, s2) \<Rightarrow> (Inr True, set_king_moved w s2))
         else if ?mv \<in> set queenside_tokens then
           (case assign_cells
                  [(if w then 7 else 0, 4, CHR ''.''),
                   (if w then 7 else 0, 2, if w then CHR ''K'' else CHR ''k''),
                   (if w then 7 else 0, 0, CHR ''.''),
                   (if w then 7 else 0, 3, if w then CHR ''R'' else CHR ''r'')] s of
              (Some e, s2) \<Rightarrow> (Inl e, s2)
            | (None, s2) \<Rightarrow> (Inr True, set_king_moved w s2))
         else
           (case cell (board s) fr ff of
              Inl e \<Rightarrow> (Inl e, s)
            | Inr moving_piece \<Rightarrow>
                (case assign_cells [(fr, ff, CHR ''.''), (tr, tf, moving_piece)] s of
                   (Some e, s2) \<Rightarrow> (Inl e, s2)
                 | (None, s2) \<Rightarrow> (Inr True, track_moved moving_piece fr ff s2))))"
        unfolding make_move_def Let_def p s1 Inr Some t by simp
      show ?thesis
      proof (cases "?mv \<in> set kingside_tokens")
        case True
        then show ?thesis by (simp only: mm if_True castle_flags)
      next
        case False
        note nk = this
        show ?thesis
        proof (cases "?mv \<in> set queenside_tokens")
          case True
          with nk show ?thesis by (simp only: mm if_True if_False castle_flags)
        next
          case False
          show ?thesis
          proof (cases "cell (board s) fr ff")
            case (Inl e)
            with nk False show ?thesis by (simp add: mm flags_kept_refl)
          next
            case (Inr mp)
            with nk False show ?thesis by (simp only: mm if_False sum.case normal_flags)
          qed
        qed
      qed
    qed
  qed
qed

lemma reset_const: "reset s = chess_board"
  by (simp add: reset_def chess_board_def)

text \<open>
  C10. \<^verbatim>\<open>parse_move\<close> and \<^verbatim>\<open>find_piece\<close> are read-only: for every move text, side
  to move and state, the state after the call is the state before it, so every cell
  of the grid and all six flags are unchanged. The source of either method has no
  assignment to the object, and \<^verbatim>\<open>parse_move\<close> goes on with the state \<^verbatim>\<open>find_piece\<close>
  hands back. \<^verbatim>\<open>make_move\<close> and \<^verbatim>\<open>reset\<close> do change the state: \<open>e4\<close> changes the
  starting grid, and \<^verbatim>\<open>reset\<close> changes the grid \<open>e4\<close> leaves.
\<close>

theorem parse_and_find_read_only:
  "snd (parse_move m w s) = s
   \<and> snd (find_piece piece to_rank to_file from_file_hint from_rank_hint w is_capture s) = s
   \<and> board (snd (make_move ''e4'' True chess_board)) \<noteq> board chess_board
   \<and> board (reset (snd (make_move ''e4'' True chess_board)))
        \<noteq> board (snd (make_move ''e4'' True chess_board))"
proof -
  have 1: "snd (parse_move m w s) = s" by (rule parse_move_snd)
  have 2: "snd (find_piece piece to_rank to_file from_file_hint from_rank_hint w is_capture s) = s"
    using find_piece_pair[of piece to_rank to_file from_file_hint from_rank_hint w is_capture s]
    by (metis snd_conv)
  have 3: "board (snd (make_move ''e4'' True chess_board)) \<noteq> board chess_board"
    by code_simp
  have 4: "board (reset (snd (make_move ''e4'' True chess_board)))
        \<noteq> board (snd (make_move ''e4'' True chess_board))"
    unfolding reset_const by code_simp
  from 1 2 3 4 show ?thesis by simp
qed

text \<open>
  C8. The six castling-rights flags are monotonic under \<^verbatim>\<open>make_move\<close>: for every state
  and every move text, a flag that is true before the call is true after it, whatever
  the call returns or raises. \<^verbatim>\<open>reset\<close> sets all six flags to false.
\<close>

theorem castling_flags_monotonic:
  "flags_kept s (snd (make_move m w s))
   \<and> \<not> white_king_moved (reset s) \<and> \<not> black_king_moved (reset s)
   \<and> \<not> white_rook_a_moved (reset s) \<and> \<not> white_rook_h_moved (reset s)
   \<and> \<not> black_rook_a_moved (reset s) \<and> \<not> black_rook_h_moved (reset s)"
proof -
  have kept: "flags_kept s (snd (make_move m w s))"
    by (rule make_move_flags)
  have cleared: "\<not> white_king_moved (reset s) \<and> \<not> black_king_moved (reset s)
      \<and> \<not> white_rook_a_moved (reset s) \<and> \<not> white_rook_h_moved (reset s)
      \<and> \<not> black_rook_a_moved (reset s) \<and> \<not> black_rook_h_moved (reset s)"
    by (simp add: reset_def)
  from kept cleared show ?thesis by simp
qed

theorem castling_flags_monotonic_witness:
  "white_king_moved (snd (make_move ''O-O'' True chess_board))
   \<and> white_king_moved (snd (make_move ''e5'' False (snd (make_move ''O-O'' True chess_board))))
   \<and> fst (make_move ''e5'' False (snd (make_move ''O-O'' True chess_board))) = Inr True"
proof -
  have h: "white_king_moved (snd (make_move ''O-O'' True chess_board))" by code_simp
  have r: "fst (make_move ''e5'' False (snd (make_move ''O-O'' True chess_board))) = Inr True"
    by code_simp
  from castling_flags_monotonic[of "snd (make_move ''O-O'' True chess_board)" "''e5''" False] h r
  show ?thesis by (simp add: flags_kept_def)
qed

text \<open>
  C2. From the standard initial position, \<^verbatim>\<open>parse_move\<close> resolves \<open>e4\<close> for White to
  the origin (6, 4) and the destination (4, 4); \<^verbatim>\<open>make_move\<close> then returns
  \<^verbatim>\<open>True\<close>, leaves cell (6, 4) empty and puts a white pawn on cell (4, 4).
\<close>

theorem e4_from_start:
  "fst (parse_move ''e4'' True (reset s)) = Inr (Some ((6, 4), (4, 4), CHR ''P''))
   \<and> fst (make_move ''e4'' True (reset s)) = Inr True
   \<and> cell (board (snd (make_move ''e4'' True (reset s)))) 6 4 = Inr (CHR ''.'')
   \<and> cell (board (snd (make_move ''e4'' True (reset s)))) 4 4 = Inr (CHR ''P'')
   \<and> board (snd (make_move ''e4'' True (reset s))) =
       [''rnbqkbnr'', ''pppppppp'', ''........'', ''........'',
        ''....P...'', ''........'', ''PPPP.PPP'', ''RNBQKBNR'']"
  unfolding reset_const by code_simp

section \<open>Grids of eight rows of eight cells\<close>

lemma py_index_in: "0 \<le> i \<Longrightarrow> i < int (length xs) \<Longrightarrow> py_index xs i = Inr (nat i)"
  by (simp add: py_index_def)

lemma wf_board_row: "wf_board b \<Longrightarrow> i < 8 \<Longrightarrow> length (b ! i) = 8"
  by (simp add: wf_board_def list_all_length)

lemma cell_wf:
  assumes "wf_board b" "on_board (r, f)"
  shows "cell b r f = Inr (b ! nat r ! nat f)"
proof -
  from assms have r: "0 \<le> r" "r < 8" and f: "0 \<le> f" "f < 8" by (auto simp: on_board_def)
  from assms(1) have len: "length b = 8" by (simp add: wf_board_def)
  from r have "nat r < 8" by simp
  from wf_board_row[OF assms(1) this] have row: "length (b ! nat r) = 8" .
  from r f len row show ?thesis
    by (simp add: cell_def py_get_def py_index_in)
qed

lemma set_cell_wf:
  assumes "wf_board b" "on_board (r, f)"
  shows "set_cell b r f v = Inr (b[nat r := (b ! nat r)[nat f := v]])"
proof -
  from assms have r: "0 \<le> r" "r < 8" and f: "0 \<le> f" "f < 8" by (auto simp: on_board_def)
  from assms(1) have len: "length b = 8" by (simp add: wf_board_def)
  from r have "nat r < 8" by simp
  from wf_board_row[OF assms(1) this] have row: "length (b ! nat r) = 8" .
  from r f len row show ?thesis
    by (simp add: set_cell_def py_index_in)
qed

lemma wf_board_update:
  assumes "wf_board b"
  shows "wf_board (b[i := (b ! i)[j := v]])"
proof (cases "i < length b")
  case True
  with assms show ?thesis
    by (auto simp: wf_board_def list_all_length nth_list_update)
next
  case False
  then have "b[i := (b ! i)[j := v]] = b" by (simp add: list_update_beyond)
  with assms show ?thesis by simp
qed

lemma cell_update:
  assumes "wf_board b" "on_board (r, f)" "on_board (r', f')"
  shows "cell (b[nat r := (b ! nat r)[nat f := v]]) r' f' =
           (if r' = r \<and> f' = f then Inr v else cell b r' f')"
proof -
  from assms have r: "0 \<le> r" "r < 8" and f: "0 \<le> f" "f < 8"
    and r': "0 \<le> r'" "r' < 8" and f': "0 \<le> f'" "f' < 8" by (auto simp: on_board_def)
  from assms(1) have len: "length b = 8" by (simp add: wf_board_def)
  from r have "nat r < 8" by simp
  from wf_board_row[OF assms(1) this] have row: "length (b ! nat r) = 8" .
  have wf': "wf_board (b[nat r := (b ! nat r)[nat f := v]])"
    by (rule wf_board_update[OF assms(1)])
  show ?thesis
    unfolding cell_wf[OF wf' assms(3)] cell_wf[OF assms(1) assms(3)]
    using r f r' f' len row
    by (auto simp: nth_list_update nat_eq_iff)
qed

section \<open>Castling\<close>

lemma parse_kingside_white:
  "parse_move ''O-O'' True s = (Inr (Some ((7, 4), (7, 6), CHR ''K'')), s)"
  by (simp add: parse_move_def py_strip_def py_isspace_def in_codes_def remove_char_def
      kingside_tokens_def)

lemma white_kingside_cells:
  assumes wf: "wf_board (board s)"
  shows "\<exists>b. make_move ''O-O'' True s = (Inr True, s\<lparr>board := b, white_king_moved := True\<rparr>)
          \<and> wf_board b
          \<and> (\<forall>r f. on_board (r, f) \<longrightarrow>
                cell b r f =
                  (if r = 7 \<and> f = 5 then Inr (CHR ''R'')
                   else if r = 7 \<and> f = 7 then Inr (CHR ''.'')
                   else if r = 7 \<and> f = 6 then Inr (CHR ''K'')
                   else if r = 7 \<and> f = 4 then Inr (CHR ''.'')
                   else cell (board s) r f))"
proof -
  define b1 where "b1 = (board s)[nat 7 := (board s ! nat 7)[nat 4 := CHR ''.'']]"
  define b2 where "b2 = b1[nat 7 := (b1 ! nat 7)[nat 6 := CHR ''K'']]"
  define b3 where "b3 = b2[nat 7 := (b2 ! nat 7)[nat 7 := CHR ''.'']]"
  define b4 where "b4 = b3[nat 7 := (b3 ! nat 7)[nat 5 := CHR ''R'']]"
  have on: "on_board (7, 4)" "on_board (7, 6)" "on_board (7, 7)" "on_board (7, 5)"
    by (simp_all add: on_board_def)
  have wf1: "wf_board b1" unfolding b1_def by (rule wf_board_update[OF wf])
  have wf2: "wf_board b2" unfolding b2_def by (rule wf_board_update[OF wf1])
  have wf3: "wf_board b3" unfolding b3_def by (rule wf_board_update[OF wf2])
  have wf4: "wf_board b4" unfolding b4_def by (rule wf_board_update[OF wf3])
  have s1: "set_cell (board s) 7 4 (CHR ''.'') = Inr b1"
    unfolding b1_def by (rule set_cell_wf[OF wf on(1)])
  have s2: "set_cell b1 7 6 (CHR ''K'') = Inr b2"
    unfolding b2_def by (rule set_cell_wf[OF wf1 on(2)])
  have s3: "set_cell b2 7 7 (CHR ''.'') = Inr b3"
    unfolding b3_def by (rule set_cell_wf[OF wf2 on(3)])
  have s4: "set_cell b3 7 5 (CHR ''R'') = Inr b4"
    unfolding b4_def by (rule set_cell_wf[OF wf3 on(4)])
  have asg: "assign_cells [(7, 4, CHR ''.''), (7, 6, CHR ''K''), (7, 7, CHR ''.''), (7, 5, CHR ''R'')] s
               = (None, s\<lparr>board := b4\<rparr>)"
    by (simp add: s1 s2 s3 s4)
  have mm: "make_move ''O-O'' True s = (Inr True, s\<lparr>board := b4, white_king_moved := True\<rparr>)"
    by (simp add: make_move_def remove_char_def parse_kingside_white kingside_tokens_def
        asg set_king_moved_def del: assign_cells.simps)
  have cells: "cell b4 r f =
                  (if r = 7 \<and> f = 5 then Inr (CHR ''R'')
                   else if r = 7 \<and> f = 7 then Inr (CHR ''.'')
                   else if r = 7 \<and> f = 6 then Inr (CHR ''K'')
                   else if r = 7 \<and> f = 4 then Inr (CHR ''.'')
                   else cell (board s) r f)" if rf: "on_board (r, f)" for r f
  proof -
    have c4: "cell b4 r f = (if r = 7 \<and> f = 5 then Inr (CHR ''R'') else cell b3 r f)"
      unfolding b4_def by (rule cell_update[OF wf3 on(4) rf])
    have c3: "cell b3 r f = (if r = 7 \<and> f = 7 then Inr (CHR ''.'') else cell b2 r f)"
      unfolding b3_def by (rule cell_update[OF wf2 on(3) rf])
    have c2: "cell b2 r f = (if r = 7 \<and> f = 6 then Inr (CHR ''K'') else cell b1 r f)"
      unfolding b2_def by (rule cell_update[OF wf1 on(2) rf])
    have c1: "cell b1 r f = (if r = 7 \<and> f = 4 then Inr (CHR ''.'') else cell (board s) r f)"
      unfolding b1_def by (rule cell_update[OF wf on(1) rf])
    show ?thesis by (simp only: c4 c3 c2 c1)
  qed
  from mm wf4 cells show ?thesis by blast
qed

text \<open>
  C6. From every state whose grid has the white king on (7, 4), the h-rook on (7, 7),
  (7, 5) and (7, 6) empty, and the king and that rook not moved, \<open>O-O\<close> for White
  returns \<^verbatim>\<open>True\<close>, puts the king on (7, 6) and the rook on (7, 5), leaves (7, 4) and
  (7, 7) empty, and sets the white-king-moved flag; every other cell and every other
  flag is unchanged. \<^verbatim>\<open>reset\<close> after it gives the starting grid and six false flags.
\<close>

theorem white_kingside_castling:
  assumes "wf_board (board s)"
    and "cell (board s) 7 4 = Inr (CHR ''K'')"
    and "cell (board s) 7 7 = Inr (CHR ''R'')"
    and "cell (board s) 7 5 = Inr (CHR ''.'')"
    and "cell (board s) 7 6 = Inr (CHR ''.'')"
    and "\<not> white_king_moved s"
    and "\<not> white_rook_h_moved s"
  shows "\<exists>s'. make_move ''O-O'' True s = (Inr True, s')
          \<and> cell (board s') 7 6 = Inr (CHR ''K'')
          \<and> cell (board s') 7 5 = Inr (CHR ''R'')
          \<and> cell (board s') 7 4 = Inr (CHR ''.'')
          \<and> cell (board s') 7 7 = Inr (CHR ''.'')
          \<and> (\<forall>r f. on_board (r, f) \<and> \<not> (r = 7 \<and> 4 \<le> f) \<longrightarrow>
                 cell (board s') r f = cell (board s) r f)
          \<and> white_king_moved s'
          \<and> black_king_moved s' = black_king_moved s
          \<and> white_rook_a_moved s' = white_rook_a_moved s
          \<and> white_rook_h_moved s' = white_rook_h_moved s
          \<and> black_rook_a_moved s' = black_rook_a_moved s
          \<and> black_rook_h_moved s' = black_rook_h_moved s
          \<and> board (reset s') =
               [''rnbqkbnr'', ''pppppppp'', ''........'', ''........'',
                ''........'', ''........'', ''PPPPPPPP'', ''RNBQKBNR'']
          \<and> \<not> white_king_moved (reset s') \<and> \<not> black_king_moved (reset s')
          \<and> \<not> white_rook_a_moved (reset s') \<and> \<not> white_rook_h_moved (reset s')
          \<and> \<not> black_rook_a_moved (reset s') \<and> \<not> black_rook_h_moved (reset s')"
proof -
  from white_kingside_cells[OF assms(1)] obtain b where
    mm: "make_move ''O-O'' True s = (Inr True, s\<lparr>board := b, white_king_moved := True\<rparr>)"
    and cells: "\<And>r f. on_board (r, f) \<Longrightarrow>
                cell b r f =
                  (if r = 7 \<and> f = 5 then Inr (CHR ''R'')
                   else if r = 7 \<and> f = 7 then Inr (CHR ''.'')
                   else if r = 7 \<and> f = 6 then Inr (CHR ''K'')
                   else if r = 7 \<and> f = 4 then Inr (CHR ''.'')
                   else cell (board s) r f)"
    by blast
  have on: "on_board (7, 4)" "on_board (7, 6)" "on_board (7, 7)" "on_board (7, 5)"
    by (simp_all add: on_board_def)
  have frame: "\<forall>r f. on_board (r, f) \<and> \<not> (r = 7 \<and> 4 \<le> f) \<longrightarrow> cell b r f = cell (board s) r f"
    by (auto simp: cells)
  show ?thesis
    apply (rule exI[of _ "s\<lparr>board := b, white_king_moved := True\<rparr>"])
    using mm frame cells[OF on(1)] cells[OF on(2)] cells[OF on(3)] cells[OF on(4)]
    by (simp add: reset_def)
qed

theorem white_kingside_castling_witness:
  "fst (make_move ''O-O'' True
      \<lparr>board = [''rnbqkbnr'', ''pppp.ppp'', ''........'', ''....p...'',
                ''..B.P...'', ''.....N..'', ''PPPP.PPP'', ''RNBQK..R''],
       white_king_moved = False, black_king_moved = False,
       white_rook_a_moved = False, white_rook_h_moved = False,
       black_rook_a_moved = False, black_rook_h_moved = False\<rparr>) = Inr True
   \<and> board (snd (make_move ''O-O'' True
      \<lparr>board = [''rnbqkbnr'', ''pppp.ppp'', ''........'', ''....p...'',
                ''..B.P...'', ''.....N..'', ''PPPP.PPP'', ''RNBQK..R''],
       white_king_moved = False, black_king_moved = False,
       white_rook_a_moved = False, white_rook_h_moved = False,
       black_rook_a_moved = False, black_rook_h_moved = False\<rparr>))
     = [''rnbqkbnr'', ''pppp.ppp'', ''........'', ''....p...'',
        ''..B.P...'', ''.....N..'', ''PPPP.PPP'', ''RNBQ.RK.'']
   \<and> white_king_moved (snd (make_move ''O-O'' True
      \<lparr>board = [''rnbqkbnr'', ''pppp.ppp'', ''........'', ''....p...'',
                ''..B.P...'', ''.....N..'', ''PPPP.PPP'', ''RNBQK..R''],
       white_king_moved = False, black_king_moved = False,
       white_rook_a_moved = False, white_rook_h_moved = False,
       black_rook_a_moved = False, black_rook_h_moved = False\<rparr>))"
proof -
  let ?s = "\<lparr>board = [''rnbqkbnr'', ''pppp.ppp'', ''........'', ''....p...'',
                ''..B.P...'', ''.....N..'', ''PPPP.PPP'', ''RNBQK..R''],
       white_king_moved = False, black_king_moved = False,
       white_rook_a_moved = False, white_rook_h_moved = False,
       black_rook_a_moved = False, black_rook_h_moved = False\<rparr>"
  have h1: "wf_board (board ?s)" by code_simp
  have h2: "cell (board ?s) 7 4 = Inr (CHR ''K'')" by code_simp
  have h3: "cell (board ?s) 7 7 = Inr (CHR ''R'')" by code_simp
  have h4: "cell (board ?s) 7 5 = Inr (CHR ''.'')" by code_simp
  have h5: "cell (board ?s) 7 6 = Inr (CHR ''.'')" by code_simp
  have h6: "\<not> white_king_moved ?s" by simp
  have h7: "\<not> white_rook_h_moved ?s" by simp
  from white_kingside_castling[OF h1 h2 h3 h4 h5 h6 h7] obtain s' where
    s': "make_move ''O-O'' True ?s = (Inr True, s')" "white_king_moved s'" by blast
  have b: "board (snd (make_move ''O-O'' True ?s))
     = [''rnbqkbnr'', ''pppp.ppp'', ''........'', ''....p...'',
        ''..B.P...'', ''.....N..'', ''PPPP.PPP'', ''RNBQ.RK.'']" by code_simp
  from s' b show ?thesis by simp
qed

section \<open>Sliding pieces\<close>

lemma cell_is_True: "cell_is b r f c = Inr True \<longleftrightarrow> cell b r f = Inr c"
  by (simp add: cell_is_def split: sum.splits)

lemma return_if_Some: "return_if c p = Inr (Some q) \<longleftrightarrow> c = Inr True \<and> q = p"
  by (auto simp: return_if_def split: sum.splits)

lemma and_also_True: "and_also a (Inr x) = Inr True \<longleftrightarrow> a = Inr True \<and> x"
  by (auto simp: and_also_def split: sum.splits)

lemma ray_found_aux:
  assumes "ray b piece fh rh dr df r f = Some y"
  shows "\<forall>p. y = Inr (Some p) \<longrightarrow> clear_ray b piece fh rh dr df r f p"
proof (rule ray.raw_induct[where
        P = "\<lambda>b piece fh rh dr df r f y. \<forall>p. y = Inr (Some p) \<longrightarrow> clear_ray b piece fh rh dr df r f p",
        OF _ assms], goal_cases)
  case (1 ray b piece fh rh dr df r f y)
  note IH = "1"(1) and prems = "1"(2)
  let ?hit = "return_if (and_also (cell_is b r f piece) (Inr (hint_ok rh r \<and> hint_ok fh f))) (r, f)"
  show ?case
  proof (intro allI impI)
    fix p assume y: "y = Inr (Some p)"
    show "clear_ray b piece fh rh dr df r f p"
    proof (cases "0 \<le> r \<and> r < 8 \<and> 0 \<le> f \<and> f < 8")
      case False
      with prems y show ?thesis by simp
    next
      case inb: True
      with prems have body:
        "(case ?hit of
            Inl e \<Rightarrow> Some (Inl e)
          | Inr None \<Rightarrow>
              (case cell_is b r f (CHR ''.'') of
                 Inl e \<Rightarrow> Some (Inl e)
               | Inr vacant \<Rightarrow>
                   if \<not> vacant then Some (Inr None)
                   else ray b piece fh rh dr df (r + dr) (f + df))
          | Inr (Some p) \<Rightarrow> Some (Inr (Some p))) = Some y"
        by (simp only: if_True simp_thms)
      show ?thesis
      proof (cases ?hit)
        case (Inl e)
        with body y show ?thesis by simp
      next
        case (Inr o1)
        show ?thesis
        proof (cases o1)
          case (Some q)
          with Inr body y have "?hit = Inr (Some p)" by simp
          then have "cell b r f = Inr piece" "hint_ok rh r" "hint_ok fh f" "p = (r, f)"
            by (simp_all add: return_if_Some and_also_True cell_is_True)
          with inb show ?thesis
            unfolding clear_ray_def by (intro exI[of _ 0]) (simp add: on_board_def)
        next
          case None
          with Inr body have body2:
            "(case cell_is b r f (CHR ''.'') of
                 Inl e \<Rightarrow> Some (Inl e)
               | Inr vacant \<Rightarrow>
                   if \<not> vacant then Some (Inr None)
                   else ray b piece fh rh dr df (r + dr) (f + df)) = Some y"
            by simp
          show ?thesis
          proof (cases "cell_is b r f (CHR ''.'')")
            case (Inl e)
            with body2 y show ?thesis by simp
          next
            case vac: (Inr vacant)
            show ?thesis
            proof (cases vacant)
              case False
              with vac body2 y show ?thesis by simp
            next
              case True
              with vac body2 have rec: "ray b piece fh rh dr df (r + dr) (f + df) = Some y"
                by simp
              from True vac have c0: "cell b r f = Inr (CHR ''.'')" by (simp add: cell_is_True)
              from IH[OF rec] y have "clear_ray b piece fh rh dr df (r + dr) (f + df) p"
                by blast
              then obtain k :: nat where
                k: "fst p = r + dr + int k * dr" "snd p = f + df + int k * df" "on_board p"
                   "cell b (fst p) (snd p) = Inr piece" "hint_ok rh (fst p)" "hint_ok fh (snd p)"
                   "\<forall>j<k. cell b (r + dr + int j * dr) (f + df + int j * df) = Inr (CHR ''.'')"
                unfolding clear_ray_def by blast
              have "\<forall>j<Suc k. cell b (r + int j * dr) (f + int j * df) = Inr (CHR ''.'')"
              proof (intro allI impI)
                fix j assume j: "j < Suc k"
                show "cell b (r + int j * dr) (f + int j * df) = Inr (CHR ''.'')"
                proof (cases j)
                  case 0
                  with c0 show ?thesis by simp
                next
                  case (Suc i)
                  with j have "i < k" by simp
                  with k(7) have "cell b (r + dr + int i * dr) (f + df + int i * df) = Inr (CHR ''.'')"
                    by blast
                  then show ?thesis by (simp add: Suc algebra_simps)
                qed
              qed
              with k show ?thesis
                unfolding clear_ray_def by (intro exI[of _ "Suc k"]) (simp add: algebra_simps)
            qed
          qed
        qed
      qed
    qed
  qed
qed


lemma or_else_Some:
  "or_else a b = Inr (Some p) \<longleftrightarrow> a = Inr (Some p) \<or> (a = Inr None \<and> b = Inr (Some p))"
  by (auto simp: or_else_def split: sum.splits option.splits)

lemma slide_loop_found:
  "slide_loop b piece fh rh tr tf ds = Inr (Some p) \<Longrightarrow>
   \<exists>d \<in> set ds. clear_ray b piece fh rh (fst d) (snd d) (tr + fst d) (tf + snd d) p"
proof (induction ds)
  case Nil
  then show ?case by simp
next
  case (Cons d ds)
  obtain dr df where d: "d = (dr, df)" by (cases d)
  show ?case
  proof (cases "ray b piece fh rh dr df (tr + dr) (tf + df)")
    case None
    with Cons.prems d show ?thesis by simp
  next
    case (Some res)
    with Cons.prems d have
      "res = Inr (Some p) \<or> (res = Inr None \<and> slide_loop b piece fh rh tr tf ds = Inr (Some p))"
      by (simp add: or_else_Some)
    then show ?thesis
    proof
      assume "res = Inr (Some p)"
      with ray_found_aux[OF Some] have "clear_ray b piece fh rh dr df (tr + dr) (tf + df) p"
        by blast
      with d show ?thesis by simp
    next
      assume "res = Inr None \<and> slide_loop b piece fh rh tr tf ds = Inr (Some p)"
      with Cons.IH show ?thesis by auto
    qed
  qed
qed

lemma bishop_dirs_legal: "d \<in> set bishop_dirs \<Longrightarrow> legal_direction (CHR ''B'') d"
  by (auto simp: bishop_dirs_def legal_direction_def)

lemma rook_dirs_legal: "d \<in> set rook_dirs \<Longrightarrow> legal_direction (CHR ''R'') d"
  by (auto simp: rook_dirs_def legal_direction_def)

lemma queen_dirs_legal: "d \<in> set queen_dirs \<Longrightarrow> legal_direction (CHR ''Q'') d"
  by (auto simp: queen_dirs_def legal_direction_def)

lemma find_piece_sliding:
  assumes pt: "py_upper piece = CHR ''B'' \<or> py_upper piece = CHR ''R'' \<or> py_upper piece = CHR ''Q''"
    and res: "fst (find_piece piece to_rank to_file fh rh w cap s) = Inr (Some p)"
  shows "\<exists>d. legal_direction (py_upper piece) d \<and>
           clear_ray (board s) piece fh rh (fst d) (snd d) (to_rank + fst d) (to_file + snd d) p"
proof -
  from pt show ?thesis
  proof (elim disjE)
    assume B: "py_upper piece = CHR ''B''"
    with res have "slide_loop (board s) piece fh rh to_rank to_file bishop_dirs = Inr (Some p)"
      by (simp add: find_piece_def)
    from slide_loop_found[OF this] obtain d where d: "d \<in> set bishop_dirs"
      "clear_ray (board s) piece fh rh (fst d) (snd d) (to_rank + fst d) (to_file + snd d) p"
      by blast
    from bishop_dirs_legal[OF d(1)] d(2) B show ?thesis
      by (intro exI[of _ d]) simp
  next
    assume R: "py_upper piece = CHR ''R''"
    with res have "slide_loop (board s) piece fh rh to_rank to_file rook_dirs = Inr (Some p)"
      by (simp add: find_piece_def)
    from slide_loop_found[OF this] obtain d where d: "d \<in> set rook_dirs"
      "clear_ray (board s) piece fh rh (fst d) (snd d) (to_rank + fst d) (to_file + snd d) p"
      by blast
    from rook_dirs_legal[OF d(1)] d(2) R show ?thesis
      by (intro exI[of _ d]) simp
  next
    assume Q: "py_upper piece = CHR ''Q''"
    with res have "slide_loop (board s) piece fh rh to_rank to_file queen_dirs = Inr (Some p)"
      by (simp add: find_piece_def)
    from slide_loop_found[OF this] obtain d where d: "d \<in> set queen_dirs"
      "clear_ray (board s) piece fh rh (fst d) (snd d) (to_rank + fst d) (to_file + snd d) p"
      by blast
    from queen_dirs_legal[OF d(1)] d(2) Q show ?thesis
      by (intro exI[of _ d]) simp
  qed
qed

lemma ray_first_occupied:
  assumes "on_board (r, f)" "cell b r f = Inr c" "c \<noteq> CHR ''.''"
  shows "ray b piece fh rh dr df r f =
           Some (if c = piece \<and> hint_ok rh r \<and> hint_ok fh f then Inr (Some (r, f)) else Inr None)"
  using assms
  by (subst ray.simps)
     (simp add: on_board_def cell_is_def return_if_def and_also_def)

lemma ray_over_empty:
  assumes "on_board (r, f)" "cell b r f = Inr (CHR ''.'')" "piece \<noteq> CHR ''.''"
  shows "ray b piece fh rh dr df r f = ray b piece fh rh dr df (r + dr) (f + df)"
  using assms
  by (subst ray.simps)
     (simp add: on_board_def cell_is_def return_if_def and_also_def)

lemma ray_stops_at_first_occupied:
  assumes "piece \<noteq> CHR ''.''"
    and "\<forall>j<k. on_board (r + int j * dr, f + int j * df)
              \<and> cell b (r + int j * dr) (f + int j * df) = Inr (CHR ''.'')"
    and "on_board (r + int k * dr, f + int k * df)"
    and "cell b (r + int k * dr) (f + int k * df) = Inr c"
    and "c \<noteq> CHR ''.''"
  shows "ray b piece fh rh dr df r f =
           Some (if c = piece \<and> hint_ok rh (r + int k * dr) \<and> hint_ok fh (f + int k * df)
                 then Inr (Some (r + int k * dr, f + int k * df)) else Inr None)"
  using assms(2-4)
proof (induction k arbitrary: r f)
  case 0
  with ray_first_occupied[of r f b c piece fh rh dr df] assms(5) show ?case by simp
next
  case (Suc k)
  from Suc.prems(1) have here: "on_board (r, f)" "cell b r f = Inr (CHR ''.'')"
    by (auto dest: spec[of _ 0])
  have shift: "r + dr + int j * dr = r + int (Suc j) * dr" "f + df + int j * df = f + int (Suc j) * df"
    for j by (simp_all add: algebra_simps)
  have "\<forall>j<k. on_board (r + dr + int j * dr, f + df + int j * df)
              \<and> cell b (r + dr + int j * dr) (f + df + int j * df) = Inr (CHR ''.'')"
    unfolding shift using Suc.prems(1) by auto
  moreover have "on_board (r + dr + int k * dr, f + df + int k * df)"
    unfolding shift using Suc.prems(2) .
  moreover have "cell b (r + dr + int k * dr) (f + df + int k * df) = Inr c"
    unfolding shift using Suc.prems(3) .
  ultimately have "ray b piece fh rh dr df (r + dr) (f + df) =
           Some (if c = piece \<and> hint_ok rh (r + dr + int k * dr) \<and> hint_ok fh (f + df + int k * df)
                 then Inr (Some (r + dr + int k * dr, f + df + int k * df)) else Inr None)"
    by (rule Suc.IH)
  then show ?case
    unfolding shift ray_over_empty[OF here assms(1)] .
qed

lemma ray_terminates:
  assumes nz: "dr \<noteq> 0 \<or> df \<noteq> 0"
  shows "\<exists>y. ray b piece fh rh dr df r f = Some y"
proof (induction "if dr > 0 then nat (8 - r) else if dr < 0 then nat (r + 1)
                  else if df > 0 then nat (8 - f) else nat (f + 1)"
       arbitrary: r f rule: less_induct)
  case less
  show ?case
  proof (cases "0 \<le> r \<and> r < 8 \<and> 0 \<le> f \<and> f < 8")
    case False
    then show ?thesis by (subst ray.simps) (simp only: if_False, simp)
  next
    case True
    with nz have
      "(if dr > 0 then nat (8 - (r + dr)) else if dr < 0 then nat (r + dr + 1)
        else if df > 0 then nat (8 - (f + df)) else nat (f + df + 1))
       < (if dr > 0 then nat (8 - r) else if dr < 0 then nat (r + 1)
          else if df > 0 then nat (8 - f) else nat (f + 1))"
      by auto
    from less.hyps[OF this] obtain y' where
      rec: "ray b piece fh rh dr df (r + dr) (f + df) = Some y'" by blast
    show ?thesis
      by (subst ray.simps) (simp only: True if_True rec, simp split: sum.split option.split)
  qed
qed

text \<open>
  C7. For a bishop, rook or queen: when \<^verbatim>\<open>find_piece\<close> returns a square, the square
  is \<open>k \<ge> 1\<close> steps from the destination along one of the piece's directions, it is
  on the board and holds the piece, and every square strictly between it and the
  destination is empty. A ray ends on the first occupied square it reaches: it
  returns that square when it holds the piece and satisfies the hints, and is
  abandoned otherwise, so no square behind a blocker is ever returned.
\<close>

theorem sliding_origin_unblocked:
  "(py_upper piece \<in> set ''BRQ''
      \<and> fst (find_piece piece to_rank to_file fh rh w cap s) = Inr (Some (r, f))
    \<longrightarrow> (\<exists>dr df k. legal_direction (py_upper piece) (dr, df) \<and> 1 \<le> k
          \<and> r = to_rank + k * dr \<and> f = to_file + k * df
          \<and> on_board (r, f) \<and> cell (board s) r f = Inr piece
          \<and> (\<forall>j. 1 \<le> j \<and> j < k \<longrightarrow>
                 cell (board s) (to_rank + j * dr) (to_file + j * df) = Inr (CHR ''.''))))
   \<and> (piece \<noteq> CHR ''.''
      \<and> (\<forall>j<n. on_board (r0 + int j * dr0, f0 + int j * df0)
                \<and> cell (board s) (r0 + int j * dr0) (f0 + int j * df0) = Inr (CHR ''.''))
      \<and> on_board (r0 + int n * dr0, f0 + int n * df0)
      \<and> cell (board s) (r0 + int n * dr0) (f0 + int n * df0) = Inr c \<and> c \<noteq> CHR ''.''
      \<longrightarrow> ray (board s) piece fh rh dr0 df0 r0 f0
            = Some (if c = piece \<and> hint_ok rh (r0 + int n * dr0) \<and> hint_ok fh (f0 + int n * df0)
                    then Inr (Some (r0 + int n * dr0, f0 + int n * df0)) else Inr None))"
proof (intro conjI impI)
  assume a: "py_upper piece \<in> set ''BRQ''
      \<and> fst (find_piece piece to_rank to_file fh rh w cap s) = Inr (Some (r, f))"
  then have pt: "py_upper piece = CHR ''B'' \<or> py_upper piece = CHR ''R'' \<or> py_upper piece = CHR ''Q''"
    by auto
  from a have res: "fst (find_piece piece to_rank to_file fh rh w cap s) = Inr (Some (r, f))"
    by simp
  from find_piece_sliding[OF pt res] obtain d where
    leg: "legal_direction (py_upper piece) d"
    and cr: "clear_ray (board s) piece fh rh (fst d) (snd d) (to_rank + fst d) (to_file + snd d) (r, f)"
    by blast
  from cr obtain k0 :: nat where
    k0: "r = to_rank + fst d + int k0 * fst d" "f = to_file + snd d + int k0 * snd d"
        "on_board (r, f)" "cell (board s) r f = Inr piece"
        "\<forall>j<k0. cell (board s) (to_rank + fst d + int j * fst d) (to_file + snd d + int j * snd d)
                 = Inr (CHR ''.'')"
    unfolding clear_ray_def by auto
  have between: "cell (board s) (to_rank + j * fst d) (to_file + j * snd d) = Inr (CHR ''.'')"
    if j: "1 \<le> j \<and> j < int k0 + 1" for j
  proof -
    from j have "nat (j - 1) < k0" by linarith
    with k0(5) have "cell (board s) (to_rank + fst d + int (nat (j - 1)) * fst d)
                       (to_file + snd d + int (nat (j - 1)) * snd d) = Inr (CHR ''.'')"
      by blast
    moreover from j have "int (nat (j - 1)) = j - 1" by simp
    ultimately show ?thesis by (simp add: algebra_simps)
  qed
  show "\<exists>dr df k. legal_direction (py_upper piece) (dr, df) \<and> 1 \<le> k
          \<and> r = to_rank + k * dr \<and> f = to_file + k * df
          \<and> on_board (r, f) \<and> cell (board s) r f = Inr piece
          \<and> (\<forall>j. 1 \<le> j \<and> j < k \<longrightarrow>
                 cell (board s) (to_rank + j * dr) (to_file + j * df) = Inr (CHR ''.''))"
    apply (rule exI[of _ "fst d"], rule exI[of _ "snd d"], rule exI[of _ "int k0 + 1"])
    using leg k0(1-4) between by (simp add: algebra_simps)
next
  assume b: "piece \<noteq> CHR ''.''
      \<and> (\<forall>j<n. on_board (r0 + int j * dr0, f0 + int j * df0)
                \<and> cell (board s) (r0 + int j * dr0) (f0 + int j * df0) = Inr (CHR ''.''))
      \<and> on_board (r0 + int n * dr0, f0 + int n * df0)
      \<and> cell (board s) (r0 + int n * dr0) (f0 + int n * df0) = Inr c \<and> c \<noteq> CHR ''.''"
  then have b1: "piece \<noteq> CHR ''.''"
    and b2: "\<forall>j<n. on_board (r0 + int j * dr0, f0 + int j * df0)
                \<and> cell (board s) (r0 + int j * dr0) (f0 + int j * df0) = Inr (CHR ''.'')"
    and b3: "on_board (r0 + int n * dr0, f0 + int n * df0)"
    and b4: "cell (board s) (r0 + int n * dr0) (f0 + int n * df0) = Inr c"
    and b5: "c \<noteq> CHR ''.''"
    by simp_all
  show "ray (board s) piece fh rh dr0 df0 r0 f0
            = Some (if c = piece \<and> hint_ok rh (r0 + int n * dr0) \<and> hint_ok fh (f0 + int n * df0)
                    then Inr (Some (r0 + int n * dr0, f0 + int n * df0)) else Inr None)"
    by (rule ray_stops_at_first_occupied[OF b1 b2 b3 b4 b5])
qed

theorem sliding_origin_unblocked_witness:
  "py_upper (CHR ''B'') \<in> set ''BRQ''
   \<and> fst (find_piece (CHR ''B'') 3 1 None None True False (snd (make_move ''e4'' True chess_board)))
       = Inr (Some (7, 5))
   \<and> (\<exists>dr df k. legal_direction (py_upper (CHR ''B'')) (dr, df) \<and> 1 \<le> k
          \<and> 7 = 3 + k * dr \<and> 5 = 1 + k * df
          \<and> cell (board (snd (make_move ''e4'' True chess_board))) 7 5 = Inr (CHR ''B''))
   \<and> cell (board chess_board) 4 2 = Inr (CHR ''.'') \<and> cell (board chess_board) 5 3 = Inr (CHR ''.'')
   \<and> cell (board chess_board) 6 4 = Inr (CHR ''P'')
   \<and> ray (board chess_board) (CHR ''B'') None None 1 1 4 2 = Some (Inr None)
   \<and> fst (find_piece (CHR ''B'') 3 1 None None True False chess_board) = Inr None"
proof -
  let ?s = "snd (make_move ''e4'' True chess_board)"
  have up: "py_upper (CHR ''B'') \<in> set ''BRQ''" by code_simp
  have fp: "fst (find_piece (CHR ''B'') 3 1 None None True False ?s) = Inr (Some (7, 5))"
    by code_simp
  have c0: "cell (board chess_board) 4 2 = Inr (CHR ''.'')" by code_simp
  have c1: "cell (board chess_board) 5 3 = Inr (CHR ''.'')" by code_simp
  have c2: "cell (board chess_board) 6 4 = Inr (CHR ''P'')" by code_simp
  have blocked: "fst (find_piece (CHR ''B'') 3 1 None None True False chess_board) = Inr None"
    by code_simp
  from sliding_origin_unblocked[where piece = "CHR ''B''" and to_rank = 3 and to_file = 1
        and fh = None and rh = None and w = True and cap = False and s = ?s
        and r = 7 and f = 5] up fp
  have 1: "\<exists>dr df k. legal_direction (py_upper (CHR ''B'')) (dr, df) \<and> 1 \<le> k
          \<and> 7 = 3 + k * dr \<and> 5 = 1 + k * df
          \<and> cell (board ?s) 7 5 = Inr (CHR ''B'')"
    by blast
  have empties: "\<forall>j<2. on_board (4 + int j * 1, 2 + int j * 1)
                \<and> cell (board chess_board) (4 + int j * 1) (2 + int j * 1) = Inr (CHR ''.'')"
  proof (intro allI impI)
    fix j :: nat assume "j < 2"
    then have "j = 0 \<or> j = 1" by auto
    with c0 c1 show "on_board (4 + int j * 1, 2 + int j * 1)
                \<and> cell (board chess_board) (4 + int j * 1) (2 + int j * 1) = Inr (CHR ''.'')"
      by (auto simp: on_board_def)
  qed
  have ob: "on_board (4 + int 2 * 1, 2 + int 2 * 1)" by (simp add: on_board_def)
  have cb: "cell (board chess_board) (4 + int 2 * 1) (2 + int 2 * 1) = Inr (CHR ''P'')"
    using c2 by simp
  from sliding_origin_unblocked[where piece = "CHR ''B''" and fh = None and rh = None
        and s = chess_board and ?r0.0 = 4 and ?f0.0 = 2 and c = "CHR ''P''"
        and ?dr0.0 = 1 and ?df0.0 = 1 and n = 2] empties ob cb
  have 2: "ray (board chess_board) (CHR ''B'') None None 1 1 4 2 = Some (Inr None)"
    by simp
  from up fp 1 c0 c1 c2 2 blocked show ?thesis by simp
qed

section \<open>Pawn captures\<close>

lemma pawn_capture_loop_none:
  assumes wf: "wf_board b"
    and no: "\<forall>f \<in> set fs. \<not> (on_board (r, f) \<and> cell b r f = Inr pawn)"
  shows "pawn_capture_loop b pawn r fs = Inr None"
  using no
proof (induction fs)
  case Nil
  show ?case by simp
next
  case (Cons f fs)
  then have rest: "pawn_capture_loop b pawn r fs = Inr None" by simp
  show ?case
  proof (cases "0 \<le> r \<and> r < 8 \<and> 0 \<le> f \<and> f < 8")
    case False
    with rest show ?thesis by (simp only: pawn_capture_loop.simps if_False)
  next
    case True
    then have on: "on_board (r, f)" by (simp add: on_board_def)
    with Cons.prems have ne: "cell b r f \<noteq> Inr pawn" by simp
    from cell_wf[OF wf on] ne have "cell_is b r f pawn = Inr False"
      by (simp add: cell_is_def)
    with True rest show ?thesis by (simp add: return_if_def or_else_def)
  qed
qed

lemma or_else_None: "or_else (Inr None) x = x"
  by (simp add: or_else_def)




text \<open>Without a capturing pawn on a candidate file the capture flag changes nothing,
  wherever the destination lies.\<close>

lemma capture_flag_without_candidate:
  assumes "wf_board (board s)"
    and "py_upper piece = CHR ''P''"
    and "\<forall>f \<in> set (candidate_files from_file_hint to_file).
           \<not> (on_board (if is_white_turn then to_rank + 1 else to_rank - 1, f)
              \<and> cell (board s) (if is_white_turn then to_rank + 1 else to_rank - 1) f
                  = Inr (if is_white_turn then CHR ''P'' else CHR ''p''))"
  shows "find_piece piece to_rank to_file from_file_hint from_rank_hint is_white_turn True s
         = find_piece piece to_rank to_file from_file_hint from_rank_hint is_white_turn False s"
proof (cases is_white_turn)
  case True
  with assms(3) have "pawn_capture_loop (board s) (CHR ''P'') (to_rank + 1)
       (candidate_files from_file_hint to_file) = Inr None"
    by (intro pawn_capture_loop_none[OF assms(1)]) simp
  with True assms(2) show ?thesis
    by (simp add: find_piece_def white_pawn_def or_else_None)
next
  case False
  with assms(3) have "pawn_capture_loop (board s) (CHR ''p'') (to_rank - 1)
       (candidate_files from_file_hint to_file) = Inr None"
    by (intro pawn_capture_loop_none[OF assms(1)]) simp
  with False assms(2) show ?thesis
    by (simp add: find_piece_def black_pawn_def or_else_None)
qed



text \<open>
  When a candidate file does hold a pawn the capture rule decides: after \<open>e4\<close> and
  \<open>d5\<close>, \<open>exd5\<close> takes the pawn of the hint file e, and the same destination without
  a capture marker is not resolved, since the destination is occupied.
\<close>

lemma capture_takes_the_hint_file:
  "fst (parse_move ''exd5'' True
         (snd (make_move ''d5'' False (snd (make_move ''e4'' True chess_board)))))
     = Inr (Some ((4, 4), (3, 3), CHR ''P''))
   \<and> fst (parse_move ''d5'' True
         (snd (make_move ''d5'' False (snd (make_move ''e4'' True chess_board)))))
     = Inr None"
  by code_simp

section \<open>Every call returns\<close>

text \<open>
  The only loop that could run forever is the ray of a sliding piece, and only for the
  direction \<open>(0, 0)\<close>. The direction lists of \<^verbatim>\<open>find_piece\<close> do not contain it, so
  \<^verbatim>\<open>find_piece\<close>, \<^verbatim>\<open>parse_move\<close> and \<^verbatim>\<open>make_move\<close> always come back, with a
  result or with a Python exception.
\<close>

lemma py_index_raises: "py_index xs i = Inl e \<Longrightarrow> e = IndexError"
  by (simp add: py_index_def Let_def split: if_splits)

lemma cell_raises: "cell b r f = Inl e \<Longrightarrow> e = IndexError"
  by (auto simp: cell_def py_get_def split: sum.splits dest: py_index_raises)

lemma cell_is_returns: "cell_is b r f c \<noteq> Inl NoReturn"
  by (auto simp: cell_is_def split: sum.splits dest: cell_raises)

lemma set_cell_raises: "set_cell b r f v = Inl e \<Longrightarrow> e = IndexError"
  by (auto simp: set_cell_def split: sum.splits dest: py_index_raises)

lemma and_also_returns:
  "a \<noteq> Inl NoReturn \<Longrightarrow> b \<noteq> Inl NoReturn \<Longrightarrow> and_also a b \<noteq> Inl NoReturn"
  by (auto simp: and_also_def split: sum.splits)

lemma return_if_returns: "c \<noteq> Inl NoReturn \<Longrightarrow> return_if c p \<noteq> Inl NoReturn"
  by (auto simp: return_if_def split: sum.splits)

lemma or_else_returns:
  "a \<noteq> Inl NoReturn \<Longrightarrow> b \<noteq> Inl NoReturn \<Longrightarrow> or_else a b \<noteq> Inl NoReturn"
  by (auto simp: or_else_def split: sum.splits option.splits)

lemma pawn_capture_loop_returns: "pawn_capture_loop b pawn r fs \<noteq> Inl NoReturn"
  by (induction fs) (simp_all add: or_else_returns return_if_returns cell_is_returns)

lemma white_pawn_returns: "white_pawn b tr tf fh cap \<noteq> Inl NoReturn"
  unfolding white_pawn_def
  by (intro or_else_returns return_if_returns and_also_returns cell_is_returns)
     (simp_all add: pawn_capture_loop_returns)

lemma black_pawn_returns: "black_pawn b tr tf fh cap \<noteq> Inl NoReturn"
  unfolding black_pawn_def
  by (intro or_else_returns return_if_returns and_also_returns cell_is_returns)
     (simp_all add: pawn_capture_loop_returns)

lemma knight_loop_returns: "knight_loop b piece fh rh tr tf ds \<noteq> Inl NoReturn"
proof (induction ds)
  case Nil
  show ?case by simp
next
  case (Cons d ds)
  obtain dr df where d: "d = (dr, df)" by (cases d)
  have "or_else (return_if (and_also (cell_is b (tr + dr) (tf + df) piece)
            (Inr (hint_ok rh (tr + dr) \<and> hint_ok fh (tf + df)))) (tr + dr, tf + df))
          (knight_loop b piece fh rh tr tf ds) \<noteq> Inl NoReturn"
    by (intro or_else_returns return_if_returns and_also_returns cell_is_returns Cons.IH) simp
  with Cons.IH d show ?case by (simp add: Let_def)
qed

lemma king_loop_returns: "king_loop b piece tr tf ds \<noteq> Inl NoReturn"
proof (induction ds)
  case Nil
  show ?case by simp
next
  case (Cons d ds)
  obtain dr df where d: "d = (dr, df)" by (cases d)
  have "or_else (return_if (cell_is b (tr + dr) (tf + df) piece) (tr + dr, tf + df))
          (king_loop b piece tr tf ds) \<noteq> Inl NoReturn"
    by (intro or_else_returns return_if_returns cell_is_returns Cons.IH)
  with Cons.IH d show ?case by (simp add: Let_def)
qed

lemma ray_raises:
  assumes "ray b piece fh rh dr df r f = Some y"
  shows "y \<noteq> Inl NoReturn"
proof (rule ray.raw_induct[where P = "\<lambda>b piece fh rh dr df r f y. y \<noteq> Inl NoReturn",
        OF _ assms], goal_cases)
  case (1 ray b piece fh rh dr df r f y)
  note IH = "1"(1) and prems = "1"(2)
  have hit: "return_if (and_also (cell_is b r f piece) (Inr (hint_ok rh r \<and> hint_ok fh f))) (r, f)
               \<noteq> Inl NoReturn"
    by (intro return_if_returns and_also_returns cell_is_returns) simp
  from prems hit cell_is_returns[of b r f "CHR ''.''"] IH show ?case
    by (auto split: if_splits sum.splits option.splits)
qed

lemma slide_loop_returns:
  assumes "\<forall>d \<in> set ds. fst d \<noteq> 0 \<or> snd d \<noteq> 0"
  shows "slide_loop b piece fh rh tr tf ds \<noteq> Inl NoReturn"
  using assms
proof (induction ds)
  case Nil
  show ?case by simp
next
  case (Cons d ds)
  obtain dr df where d: "d = (dr, df)" by (cases d)
  with Cons.prems have nz: "dr \<noteq> 0 \<or> df \<noteq> 0" by simp
  from ray_terminates[OF nz] obtain y where
    y: "ray b piece fh rh dr df (tr + dr) (tf + df) = Some y" by blast
  from Cons have rest: "slide_loop b piece fh rh tr tf ds \<noteq> Inl NoReturn" by simp
  from or_else_returns[OF ray_raises[OF y] rest] y d show ?case by simp
qed

lemma find_piece_returns:
  "fst (find_piece piece tr tf fh rh w cap s) \<noteq> Inl NoReturn"
proof -
  have b: "slide_loop (board s) piece fh rh tr tf bishop_dirs \<noteq> Inl NoReturn"
    by (rule slide_loop_returns) (simp add: bishop_dirs_def)
  have r: "slide_loop (board s) piece fh rh tr tf rook_dirs \<noteq> Inl NoReturn"
    by (rule slide_loop_returns) (simp add: rook_dirs_def)
  have q: "slide_loop (board s) piece fh rh tr tf queen_dirs \<noteq> Inl NoReturn"
    by (rule slide_loop_returns) (simp add: queen_dirs_def)
  from b r q show ?thesis
    by (simp add: find_piece_def Let_def white_pawn_returns black_pawn_returns
        knight_loop_returns king_loop_returns)
qed

lemma py_int_raises: "py_int c = Inl e \<Longrightarrow> e = ValueError"
  by (simp add: py_int_def split: if_splits)

lemma rank_hint_loop_returns: "rank_hint_loop cs h \<noteq> Inl NoReturn"
  by (induction cs arbitrary: h) (auto split: sum.splits dest: py_int_raises)

lemma parse_move_returns: "fst (parse_move m w s) \<noteq> Inl NoReturn"
proof -
  have fp: "find_piece p tr tf fh rh w' cap s = (Inl e, s1) \<Longrightarrow> e \<noteq> NoReturn"
    for p tr tf fh rh w' cap e s1
    using find_piece_returns[of p tr tf fh rh w' cap s] by auto
  have rh: "rank_hint_loop cs None = Inl e \<Longrightarrow> e \<noteq> NoReturn" for cs e
    using rank_hint_loop_returns[of cs None] by auto
  show ?thesis
    unfolding parse_move_def Let_def
    by (auto split: list.split sum.split option.split prod.split dest: fp rh)
qed

lemma assign_cells_raises: "assign_cells as s = (Some e, s') \<Longrightarrow> e = IndexError"
proof (induction as arbitrary: s)
  case Nil
  then show ?case by simp
next
  case (Cons a as)
  obtain rk fl v where a: "a = (rk, fl, v)" by (cases a)
  show ?case
  proof (cases "set_cell (board s) rk fl v")
    case (Inl e')
    with Cons.prems a set_cell_raises[OF Inl] show ?thesis by simp
  next
    case (Inr b)
    with Cons.prems a have "assign_cells as (s\<lparr>board := b\<rparr>) = (Some e, s')" by simp
    from Cons.IH[OF this] show ?thesis .
  qed
qed


lemma make_move_returns: "fst (make_move m w s) \<noteq> Inl NoReturn"
proof -
  let ?mv = "remove_char (CHR ''#'') (remove_char (CHR ''+'') m)"
  obtain res s1 where p: "parse_move ?mv w s = (res, s1)"
    by (cases "parse_move ?mv w s")
  from parse_move_returns[of ?mv w s] p have res: "res \<noteq> Inl NoReturn" by simp
  have asg: "fst (case assign_cells as s1 of
                    (Some e, s2) \<Rightarrow> (Inl e, s2)
                  | (None, s2) \<Rightarrow> (Inr True, g s2)) \<noteq> Inl NoReturn" for as g
  proof -
    obtain x s2 where a: "assign_cells as s1 = (x, s2)" by (cases "assign_cells as s1")
    show ?thesis
    proof (cases x)
      case None
      with a show ?thesis by simp
    next
      case (Some e)
      with a assign_cells_raises[of as s1 e s2] show ?thesis by simp
    qed
  qed
  show ?thesis
  proof (cases res)
    case (Inl e)
    with p res show ?thesis by (simp add: make_move_def)
  next
    case (Inr po)
    show ?thesis
    proof (cases po)
      case None
      with Inr p show ?thesis by (simp add: make_move_def)
    next
      case (Some t)
      obtain fr ff tr tf pc where t: "t = ((fr, ff), (tr, tf), pc)"
        by (cases t) auto
      show ?thesis
      proof (cases "cell (board s1) fr ff")
        case (Inl e)
        with cell_raises[OF Inl] show ?thesis
          unfolding make_move_def Let_def p Inr Some t
          by (simp only: prod.case sum.case option.case asg fst_conv split: if_split) simp
      next
        case mp: (Inr c)
        show ?thesis
          unfolding make_move_def Let_def p Inr Some t
          by (simp only: prod.case sum.case option.case mp asg split: if_split) simp
      qed
    qed
  qed
qed

section \<open>Texts with nothing to parse\<close>

lemma filter_dropWhile_le: "length (filter P (dropWhile Q xs)) \<le> length (filter P xs)"
proof -
  have "length (filter P xs) = length (filter P (takeWhile Q xs @ dropWhile Q xs))" by simp
  also have "\<dots> = length (filter P (takeWhile Q xs)) + length (filter P (dropWhile Q xs))"
    by (simp only: filter_append length_append)
  finally show ?thesis by simp
qed

lemma filter_strip_le: "length (filter P (py_strip m)) \<le> length (filter P m)"
proof -
  have "length (filter P (py_strip m)) = length (filter P (dropWhile py_isspace (rev (dropWhile py_isspace m))))"
    by (simp add: py_strip_def rev_filter[symmetric])
  also have "\<dots> \<le> length (filter P (rev (dropWhile py_isspace m)))"
    by (rule filter_dropWhile_le)
  also have "\<dots> = length (filter P (dropWhile py_isspace m))"
    by (simp add: rev_filter[symmetric])
  also have "\<dots> \<le> length (filter P m)"
    by (rule filter_dropWhile_le)
  finally show ?thesis .
qed

lemma short_text_parse:
  assumes short: "length (filter (\<lambda>c. c \<notin> set ''+#!?x'') m) < 2"
  shows "fst (parse_move m w s) =
           (if remove_char (CHR ''?'') (remove_char (CHR ''!'') (remove_char (CHR ''#'')
                (remove_char (CHR ''+'') (py_strip m)))) = []
            then Inl IndexError else Inr None)"
proof -
  define move where "move = remove_char (CHR ''?'') (remove_char (CHR ''!'') (remove_char (CHR ''#'')
                (remove_char (CHR ''+'') (py_strip m))))"
  have "remove_char (CHR ''x'') move = filter (\<lambda>c. c \<notin> set ''+#!?x'') (py_strip m)"
    unfolding move_def remove_char_def by (auto intro: filter_cong)
  with filter_strip_le[of "\<lambda>c. c \<notin> set ''+#!?x''" m] short
  have len: "length (remove_char (CHR ''x'') move) < 2" by simp
  have nk: "move \<notin> set kingside_tokens"
  proof
    assume "move \<in> set kingside_tokens"
    then have "length (remove_char (CHR ''x'') move) = 3"
      by (auto simp: kingside_tokens_def remove_char_def)
    with len show False by simp
  qed
  have nq: "move \<notin> set queenside_tokens"
  proof
    assume "move \<in> set queenside_tokens"
    then have "length (remove_char (CHR ''x'') move) = 5"
      by (auto simp: queenside_tokens_def remove_char_def)
    with len show False by simp
  qed
  show ?thesis
  proof (cases move)
    case Nil
    with nk nq show ?thesis
      unfolding parse_move_def Let_def move_def[symmetric] by simp
  next
    case (Cons c0 rest)
    have "length (remove_char (CHR ''x'') rest) \<le> length (remove_char (CHR ''x'') move)"
      by (simp add: Cons remove_char_def)
    with len have len': "length (remove_char (CHR ''x'') rest) < 2" by simp
    from Cons nk nq len len' show ?thesis
      unfolding parse_move_def Let_def move_def[symmetric] by simp
  qed
qed

text \<open>
  C3. A text with fewer than two characters besides \<open>+ # ! ?\<close> and \<open>x\<close> should make
  \<^verbatim>\<open>parse_move\<close> return \<^verbatim>\<open>None\<close> without raising. By \<open>short_text_parse\<close> it does as
  long as one character is left after stripping. When nothing is left (the empty
  text, a text of annotation characters, a blank), \<^verbatim>\<open>move[0]\<close> is read before the
  length check and the call raises \<^verbatim>\<open>IndexError\<close>, out of \<^verbatim>\<open>parse_move\<close> and out of
  \<^verbatim>\<open>make_move\<close>, for both sides and every state. The state is left as it was.
\<close>

theorem parse_move_nothing_left_raises:
  "parse_move '''' w s = (Inl IndexError, s)
   \<and> parse_move ''+'' w s = (Inl IndexError, s)
   \<and> parse_move ''!?'' w s = (Inl IndexError, s)
   \<and> parse_move '' '' w s = (Inl IndexError, s)
   \<and> make_move '''' w s = (Inl IndexError, s)
   \<and> make_move ''#'' w s = (Inl IndexError, s)"
  by (simp add: parse_move_def make_move_def py_strip_def py_isspace_def in_codes_def
      remove_char_def kingside_tokens_def queenside_tokens_def)

section \<open>Destinations off the board\<close>

text \<open>
  C4. A destination token that is not a file letter a to h and a rank digit 1 to 8
  should make \<^verbatim>\<open>parse_move\<close> return \<^verbatim>\<open>None\<close>. \<^verbatim>\<open>parse_move\<close> refuses a
  destination only when its last character is not a decimal digit. From the starting
  position \<open>Ni2\<close>, \<open>Rh0\<close> (White) and \<open>Ke9\<close> (Black) are resolved, to destinations
  with file 8, rank 8 and rank -1. \<^verbatim>\<open>make_move\<close> then raises \<^verbatim>\<open>IndexError\<close> on \<open>Ni2\<close>
  after it has taken the knight off g1, and on \<open>Ke9\<close> the index -1 counts from the end
  of the grid: the black king replaces the white king on e1.
\<close>

theorem invalid_destination_is_resolved:
  "\<not> valid_square ''i2'' \<and> \<not> valid_square ''h0'' \<and> \<not> valid_square ''e9''
   \<and> fst (parse_move ''Ni2'' True chess_board) = Inr (Some ((7, 6), (6, 8), CHR ''N''))
   \<and> fst (parse_move ''Rh0'' True chess_board) = Inr (Some ((7, 7), (8, 7), CHR ''R''))
   \<and> fst (parse_move ''Ke9'' False chess_board) = Inr (Some ((0, 4), (-1, 4), CHR ''k''))
   \<and> fst (make_move ''Ni2'' True chess_board) = Inl IndexError
   \<and> board (snd (make_move ''Ni2'' True chess_board)) =
        [''rnbqkbnr'', ''pppppppp'', ''........'', ''........'',
         ''........'', ''........'', ''PPPPPPPP'', ''RNBQKB.R'']
   \<and> fst (make_move ''Ke9'' False chess_board) = Inr True
   \<and> board (snd (make_move ''Ke9'' False chess_board)) =
        [''rnbq.bnr'', ''pppppppp'', ''........'', ''........'',
         ''........'', ''........'', ''PPPPPPPP'', ''RNBQkBNR'']"
  by code_simp

section \<open>Annotations after a castling token\<close>

text \<open>A trailing \<open>+\<close> or \<open>#\<close> never changes what \<^verbatim>\<open>make_move\<close> does.\<close>

lemma make_move_check_marks:
  "make_move (m @ ''+'') w s = make_move m w s \<and> make_move (m @ ''#'') w s = make_move m w s"
  by (simp add: make_move_def remove_char_def)

text \<open>
  C5. A trailing \<open>+\<close>, \<open>#\<close>, \<open>!\<close> or \<open>?\<close> should never change what \<^verbatim>\<open>make_move\<close>
  does, so that \<open>O-O!\<close> castles. \<^verbatim>\<open>make_move\<close> removes \<open>+\<close> and \<open>#\<close> only, and
  compares that text with the castling tokens. On a position ready to
  castle, \<open>O-O!\<close> and \<open>O-O?\<close> return \<^verbatim>\<open>True\<close> and move the king from e1 to g1 as a
  normal move: the rook stays on h1 and f1 stays empty. \<open>O-O\<close> and \<open>O-O+\<close> move both
  pieces.
\<close>

theorem annotated_castling_moves_only_the_king:
  "fst (make_move ''O-O!'' True
      \<lparr>board = [''rnbqkbnr'', ''pppp.ppp'', ''........'', ''....p...'',
                ''..B.P...'', ''.....N..'', ''PPPP.PPP'', ''RNBQK..R''],
       white_king_moved = False, black_king_moved = False,
       white_rook_a_moved = False, white_rook_h_moved = False,
       black_rook_a_moved = False, black_rook_h_moved = False\<rparr>) = Inr True
   \<and> board (snd (make_move ''O-O!'' True
      \<lparr>board = [''rnbqkbnr'', ''pppp.ppp'', ''........'', ''....p...'',
                ''..B.P...'', ''.....N..'', ''PPPP.PPP'', ''RNBQK..R''],
       white_king_moved = False, black_king_moved = False,
       white_rook_a_moved = False, white_rook_h_moved = False,
       black_rook_a_moved = False, black_rook_h_moved = False\<rparr>))
     = [''rnbqkbnr'', ''pppp.ppp'', ''........'', ''....p...'',
        ''..B.P...'', ''.....N..'', ''PPPP.PPP'', ''RNBQ..KR'']
   \<and> board (snd (make_move ''O-O?'' True
      \<lparr>board = [''rnbqkbnr'', ''pppp.ppp'', ''........'', ''....p...'',
                ''..B.P...'', ''.....N..'', ''PPPP.PPP'', ''RNBQK..R''],
       white_king_moved = False, black_king_moved = False,
       white_rook_a_moved = False, white_rook_h_moved = False,
       black_rook_a_moved = False, black_rook_h_moved = False\<rparr>))
     = [''rnbqkbnr'', ''pppp.ppp'', ''........'', ''....p...'',
        ''..B.P...'', ''.....N..'', ''PPPP.PPP'', ''RNBQ..KR'']
   \<and> board (snd (make_move ''O-O'' True
      \<lparr>board = [''rnbqkbnr'', ''pppp.ppp'', ''........'', ''....p...'',
                ''..B.P...'', ''.....N..'', ''PPPP.PPP'', ''RNBQK..R''],
       white_king_moved = False, black_king_moved = False,
       white_rook_a_moved = False, white_rook_h_moved = False,
       black_rook_a_moved = False, black_rook_h_moved = False\<rparr>))
     = [''rnbqkbnr'', ''pppp.ppp'', ''........'', ''....p...'',
        ''..B.P...'', ''.....N..'', ''PPPP.PPP'', ''RNBQ.RK.'']
   \<and> board (snd (make_move ''O-O+'' True
      \<lparr>board = [''rnbqkbnr'', ''pppp.ppp'', ''........'', ''....p...'',
                ''..B.P...'', ''.....N..'', ''PPPP.PPP'', ''RNBQK..R''],
       white_king_moved = False, black_king_moved = False,
       white_rook_a_moved = False, white_rook_h_moved = False,
       black_rook_a_moved = False, black_rook_h_moved = False\<rparr>))
     = [''rnbqkbnr'', ''pppp.ppp'', ''........'', ''....p...'',
        ''..B.P...'', ''.....N..'', ''PPPP.PPP'', ''RNBQ.RK.'']"
  by code_simp

end
